theory Spec2Isabelle
  imports Complex_Main "HOL-Library.AList"
begin

section \<open>Decoded JSON values and the Python operations the loader applies to them\<close>

text \<open>
  \<^verbatim>\<open>json.load\<close> yields \<^verbatim>\<open>None\<close>, booleans, numbers, strings, lists and dicts with
  string keys. A dict is kept as an association list read with \<open>map_of\<close> (the first
  binding of a key is the one the dict holds). Numbers are rationals: the loader only
  tests them for zero and hands them to the database.
\<close>

datatype json =
    JNull
  | JBool bool
  | JNum rat
  | JStr string
  | JList "json list"
  | JDict "(string \<times> json) list"

type_synonym props = "(string \<times> json) list"

text \<open>The exceptions that can arise in \<^verbatim>\<open>utils/neo4j_loader.py\<close>.\<close>

datatype error =
    RuntimeError
  | FileNotFoundError
  | JSONDecodeError
  | ValueError
  | AttributeError
  | TypeError
  | Neo4jError

text \<open>All of them derive from \<^verbatim>\<open>Exception\<close>, which is what \<^verbatim>\<open>except Exception\<close> catches.\<close>

fun is_Exception :: "error \<Rightarrow> bool" where
  "is_Exception RuntimeError = True"
| "is_Exception FileNotFoundError = True"
| "is_Exception JSONDecodeError = True"
| "is_Exception ValueError = True"
| "is_Exception AttributeError = True"
| "is_Exception TypeError = True"
| "is_Exception Neo4jError = True"

text \<open>\<^verbatim>\<open>isinstance(x, dict)\<close> and \<^verbatim>\<open>isinstance(x, list)\<close>.\<close>

fun is_dict :: "json \<Rightarrow> bool" where
  "is_dict (JDict kv) = True"
| "is_dict _ = False"

fun is_list :: "json \<Rightarrow> bool" where
  "is_list (JList xs) = True"
| "is_list _ = False"

text \<open>Python truthiness, as tested by \<^verbatim>\<open>not x\<close>.\<close>

fun truthy :: "json \<Rightarrow> bool" where
  "truthy JNull = False"
| "truthy (JBool b) = b"
| "truthy (JNum r) = (r \<noteq> 0)"
| "truthy (JStr s) = (s \<noteq> [])"
| "truthy (JList xs) = (xs \<noteq> [])"
| "truthy (JDict kv) = (kv \<noteq> [])"

text \<open>\<^verbatim>\<open>x.get(k, d)\<close>: only a dict has the method; anything else raises AttributeError.\<close>

fun py_get :: "json \<Rightarrow> string \<Rightarrow> json \<Rightarrow> error + json" where
  "py_get (JDict kv) k d = Inr (case map_of kv k of None \<Rightarrow> d | Some v \<Rightarrow> v)"
| "py_get _ k d = Inl AttributeError"

text \<open>\<^verbatim>\<open>k in x\<close> for a dict \<open>x\<close>.\<close>

fun py_in :: "string \<Rightarrow> json \<Rightarrow> bool" where
  "py_in k (JDict kv) = (map_of kv k \<noteq> None)"
| "py_in k _ = False"

text \<open>\<^verbatim>\<open>len(x)\<close> raises TypeError on \<^verbatim>\<open>None\<close>, booleans and numbers.\<close>

fun py_len :: "json \<Rightarrow> error + nat" where
  "py_len (JList xs) = Inr (length xs)"
| "py_len (JStr s) = Inr (length s)"
| "py_len (JDict kv) = Inr (length kv)"
| "py_len _ = Inl TypeError"

text \<open>
  \<^verbatim>\<open>for x in v\<close>: a list yields its elements, a string its characters, a dict its keys.
  It is only reached after \<^verbatim>\<open>len(v)\<close> has succeeded.
\<close>

fun py_iter :: "json \<Rightarrow> json list" where
  "py_iter (JList xs) = xs"
| "py_iter (JStr s) = map (\<lambda>c. JStr [c]) s"
| "py_iter (JDict kv) = map (\<lambda>p. JStr (fst p)) kv"
| "py_iter _ = []"

fun dict_items :: "json \<Rightarrow> props" where
  "dict_items (JDict kv) = kv"
| "dict_items _ = []"

text \<open>Sequencing of statements that may raise: the first exception ends the block.\<close>

definition bind_err :: "error + 'a \<Rightarrow> ('a \<Rightarrow> error + 'b) \<Rightarrow> error + 'b" where
  "bind_err m f = (case m of Inl e \<Rightarrow> Inl e | Inr x \<Rightarrow> f x)"

section \<open>The property graph behind the session\<close>

text \<open>
  The database is the collaborator of the loader. Its state is a property graph: nodes
  with an identity, labels and properties; directed relationships with a type and
  properties, attached to node identities.
\<close>

record node =
  nid :: nat
  labels :: "string list"
  nprops :: props

record edge =
  esrc :: nat
  edst :: nat
  etype :: string
  eprops :: props

record graph =
  g_nodes :: "node list"
  g_edges :: "edge list"

definition empty_graph :: graph where
  "empty_graph = \<lparr>g_nodes = [], g_edges = []\<rparr>"

definition fresh_id :: "graph \<Rightarrow> nat" where
  "fresh_id g = Suc (fold max (map nid (g_nodes g)) 0)"

text \<open>
  \<^verbatim>\<open>SET x.k = v\<close>: a null value removes the property.
  \<^verbatim>\<open>SET x += m\<close> does so for every entry of the map \<open>m\<close>.
\<close>

definition set_prop :: "string \<Rightarrow> json \<Rightarrow> props \<Rightarrow> props" where
  "set_prop k v ps = (if v = JNull then AList.delete k ps else AList.update k v ps)"

definition add_props :: "props \<Rightarrow> props \<Rightarrow> props" where
  "add_props m ps = foldr (\<lambda>kv. set_prop (fst kv) (snd kv)) m ps"

text \<open>The node pattern \<^verbatim>\<open>(n:Entity {k: v, dataset: ds})\<close>.\<close>

definition has_key :: "string \<Rightarrow> json \<Rightarrow> string \<Rightarrow> node \<Rightarrow> bool" where
  "has_key k v ds n \<longleftrightarrow>
     ''Entity'' \<in> set (labels n) \<and> map_of (nprops n) k = Some v \<and>
     map_of (nprops n) ''dataset'' = Some (JStr ds)"

text \<open>The node pattern \<^verbatim>\<open>(n {dataset: ds})\<close> of the clear statement: any label.\<close>

definition in_dataset :: "string \<Rightarrow> node \<Rightarrow> bool" where
  "in_dataset ds n \<longleftrightarrow> map_of (nprops n) ''dataset'' = Some (JStr ds)"

text \<open>The relationship pattern \<^verbatim>\<open>(a)-[r:RELATES {type: rel, dataset: ds}]->(b)\<close>.\<close>

definition rel_is :: "nat \<Rightarrow> nat \<Rightarrow> json \<Rightarrow> string \<Rightarrow> edge \<Rightarrow> bool" where
  "rel_is a b rel ds e \<longleftrightarrow>
     esrc e = a \<and> edst e = b \<and> etype e = ''RELATES'' \<and>
     map_of (eprops e) ''type'' = Some rel \<and> map_of (eprops e) ''dataset'' = Some (JStr ds)"

text \<open>\<^verbatim>\<open>MATCH (n {dataset: $dataset}) DETACH DELETE n\<close>.\<close>

definition detach_delete :: "string \<Rightarrow> graph \<Rightarrow> graph" where
  "detach_delete ds g =
     (let gone = map nid (filter (in_dataset ds) (g_nodes g))
      in \<lparr>g_nodes = filter (\<lambda>n. \<not> in_dataset ds n) (g_nodes g),
          g_edges = filter (\<lambda>e. esrc e \<notin> set gone \<and> edst e \<notin> set gone) (g_edges g)\<rparr>)"

text \<open>
  One endpoint of the relationship-list statement, on one incoming row:
  \<^verbatim>\<open>MERGE (a:Entity {name: $name, dataset: $dataset})
  ON CREATE SET a.type = $type, a += $props  ON MATCH SET a += $props\<close>.
  The result rows are the identities bound to \<open>a\<close>.
\<close>

definition merge_entity :: "json \<Rightarrow> string \<Rightarrow> json \<Rightarrow> props \<Rightarrow> graph \<Rightarrow> graph \<times> nat list" where
  "merge_entity name ds ty ps g =
     (if filter (has_key ''name'' name ds) (g_nodes g) = [] then
        (let n = \<lparr>nid = fresh_id g, labels = [''Entity''],
                  nprops = add_props ps (set_prop ''type'' ty [(''name'', name), (''dataset'', JStr ds)])\<rparr>
         in (g\<lparr>g_nodes := g_nodes g @ [n]\<rparr>, [nid n]))
      else
        (g\<lparr>g_nodes := map (\<lambda>n. if has_key ''name'' name ds n
                                then n\<lparr>nprops := add_props ps (nprops n)\<rparr> else n) (g_nodes g)\<rparr>,
         map nid (filter (has_key ''name'' name ds) (g_nodes g))))"

text \<open>The second \<^verbatim>\<open>MERGE\<close> runs once for every row the first one produced.\<close>

fun merge_end_rows :: "nat list \<Rightarrow> json \<Rightarrow> string \<Rightarrow> json \<Rightarrow> props \<Rightarrow> graph \<Rightarrow> graph \<times> (nat \<times> nat) list" where
  "merge_end_rows [] name ds ty ps g = (g, [])"
| "merge_end_rows (a # as) name ds ty ps g =
     (case merge_entity name ds ty ps g of (g1, bs) \<Rightarrow>
      case merge_end_rows as name ds ty ps g1 of (g2, rows) \<Rightarrow>
        (g2, map (Pair a) bs @ rows))"

text \<open>\<^verbatim>\<open>MERGE (a)-[r:RELATES {type: $relation, dataset: $dataset}]->(b)\<close> on one row.\<close>

definition merge_rel :: "json \<Rightarrow> string \<Rightarrow> nat \<times> nat \<Rightarrow> graph \<Rightarrow> graph" where
  "merge_rel rel ds ab g =
     (if list_ex (rel_is (fst ab) (snd ab) rel ds) (g_edges g) then g
      else g\<lparr>g_edges := g_edges g @
              [\<lparr>esrc = fst ab, edst = snd ab, etype = ''RELATES'',
                eprops = [(''type'', rel), (''dataset'', JStr ds)]\<rparr>]\<rparr>)"

text \<open>The parameters of the three write statements of the loader.\<close>

record rel_write =
  rw_start_name :: json
  rw_end_name :: json
  rw_dataset :: string
  rw_start_type :: json
  rw_end_type :: json
  rw_start_props :: props
  rw_end_props :: props
  rw_relation :: json

record node_write =
  nw_id :: json
  nw_name :: json
  nw_type :: json
  nw_attributes :: json
  nw_dataset :: string

record edge_write =
  ew_source :: json
  ew_target :: json
  ew_relation :: json
  ew_weight :: json
  ew_dataset :: string

datatype request =
    Ping
  | ClearDataset string
  | MergeRelationship rel_write
  | MergeNode node_write
  | MergeEdge edge_write

text \<open>
  The relationship-list statement: both endpoints are merged, then the relationship,
  and \<^verbatim>\<open>RETURN a, b, r\<close> gives one row per binding.
\<close>

definition run_merge_relationship :: "rel_write \<Rightarrow> graph \<Rightarrow> graph \<times> (nat \<times> nat) list" where
  "run_merge_relationship p g =
     (case merge_entity (rw_start_name p) (rw_dataset p) (rw_start_type p) (rw_start_props p) g of
        (g1, as) \<Rightarrow>
      case merge_end_rows as (rw_end_name p) (rw_dataset p) (rw_end_type p) (rw_end_props p) g1 of
        (g2, rows) \<Rightarrow>
      (fold (merge_rel (rw_relation p) (rw_dataset p)) rows g2, rows))"

text \<open>
  \<^verbatim>\<open>MERGE (n:Entity {id: $id, dataset: $dataset})
  SET n.name = $name, n.type = $type, n.attributes = $attributes\<close>.
\<close>

definition run_merge_node :: "node_write \<Rightarrow> graph \<Rightarrow> graph" where
  "run_merge_node p g =
     (let g1 = (if filter (has_key ''id'' (nw_id p) (nw_dataset p)) (g_nodes g) = [] then
                  g\<lparr>g_nodes := g_nodes g @
                      [\<lparr>nid = fresh_id g, labels = [''Entity''],
                        nprops = [(''id'', nw_id p), (''dataset'', JStr (nw_dataset p))]\<rparr>]\<rparr>
                else g)
      in g1\<lparr>g_nodes := map (\<lambda>n. if has_key ''id'' (nw_id p) (nw_dataset p) n
                then n\<lparr>nprops := set_prop ''attributes'' (nw_attributes p)
                                    (set_prop ''type'' (nw_type p)
                                      (set_prop ''name'' (nw_name p) (nprops n)))\<rparr>
                else n) (g_nodes g1)\<rparr>)"

text \<open>
  \<^verbatim>\<open>MATCH (a:Entity {id: $source, dataset: $dataset})
  MATCH (b:Entity {id: $target, dataset: $dataset})
  MERGE (a)-[r:RELATES {type: $relation, dataset: $dataset}]->(b)
  SET r.weight = $weight\<close>.
  Without a match for \<open>a\<close> or \<open>b\<close> there is no row, and nothing is written.
\<close>

definition run_merge_edge :: "edge_write \<Rightarrow> graph \<Rightarrow> graph" where
  "run_merge_edge p g =
     (let as = map nid (filter (has_key ''id'' (ew_source p) (ew_dataset p)) (g_nodes g));
          bs = map nid (filter (has_key ''id'' (ew_target p) (ew_dataset p)) (g_nodes g));
          rows = List.product as bs;
          g1 = fold (merge_rel (ew_relation p) (ew_dataset p)) rows g
      in g1\<lparr>g_edges := map (\<lambda>e. if list_ex (\<lambda>ab. rel_is (fst ab) (snd ab) (ew_relation p) (ew_dataset p) e) rows
                then e\<lparr>eprops := set_prop ''weight'' (ew_weight p) (eprops e)\<rparr>
                else e) (g_edges g1)\<rparr>)"

text \<open>
  A statement that the server accepts: the new graph, and whether the result has a first
  record (what \<^verbatim>\<open>result.peek()\<close> tests). Only the statements with a \<^verbatim>\<open>RETURN\<close>
  clause produce records.
\<close>

fun exec :: "request \<Rightarrow> graph \<Rightarrow> graph \<times> bool" where
  "exec Ping g = (g, True)"
| "exec (ClearDataset ds) g = (detach_delete ds g, False)"
| "exec (MergeRelationship p) g =
     (case run_merge_relationship p g of (g', rows) \<Rightarrow> (g', rows \<noteq> []))"
| "exec (MergeNode p) g = (run_merge_node p g, False)"
| "exec (MergeEdge p) g = (run_merge_edge p g, False)"

section \<open>The world the loader runs in\<close>

text \<open>
  \<open>db\<close> is the stored graph, \<open>trace\<close> the statements sent so far (in order),
  \<open>drivers_open\<close> and \<open>sessions_open\<close> count the drivers and sessions that have been
  opened and not closed.
\<close>

record world =
  db :: graph
  trace :: "request list"
  drivers_open :: nat
  sessions_open :: nat

datatype file_state = Absent | Malformed | Content json

text \<open>
  What the loader cannot control: \<open>fault i\<close> says that the \<open>i\<close>-th statement sent to the
  server (counted over the whole trace) raises; \<open>driver_ok\<close> that
  \<^verbatim>\<open>GraphDatabase.driver\<close> returns a driver; \<open>files\<close> what is found at a path.
  Every reason the server may have to reject a statement (a constraint, a value it cannot
  store, a lost connection) is a fault, so a property proved for every \<open>fault\<close> holds
  whatever the server rejects. Log lines are not part of the model.
\<close>

record env =
  fault :: "nat \<Rightarrow> bool"
  driver_ok :: bool
  files :: "string \<Rightarrow> file_state"

text \<open>\<^verbatim>\<open>Neo4jLoader\<close>: \<open>driver\<close> is false while \<^verbatim>\<open>self.driver\<close> is \<^verbatim>\<open>None\<close>.\<close>

record loader =
  driver :: bool

definition Neo4jLoader :: loader where
  "Neo4jLoader = \<lparr>driver = False\<rparr>"

text \<open>
  \<^verbatim>\<open>session.run\<close>: a statement that raises leaves the graph as it was (each statement is
  its own transaction).
\<close>

definition session_run :: "env \<Rightarrow> request \<Rightarrow> world \<Rightarrow> (error + bool) \<times> world" where
  "session_run env q w =
     (if fault env (length (trace w)) then (Inl Neo4jError, w\<lparr>trace := trace w @ [q]\<rparr>)
      else (case exec q (db w) of (g, r) \<Rightarrow> (Inr r, w\<lparr>db := g, trace := trace w @ [q]\<rparr>)))"

text \<open>\<^verbatim>\<open>with self.driver.session(...) as session\<close>: the session is closed however the body ends.\<close>

definition with_session :: "(world \<Rightarrow> 'a \<times> world) \<Rightarrow> world \<Rightarrow> 'a \<times> world" where
  "with_session body w =
     (case body (w\<lparr>sessions_open := Suc (sessions_open w)\<rparr>) of
        (r, w') \<Rightarrow> (r, w'\<lparr>sessions_open := sessions_open w' - 1\<rparr>))"

section \<open>The loader\<close>

definition connect :: "env \<Rightarrow> loader \<Rightarrow> world \<Rightarrow> bool \<times> loader \<times> world" where
  "connect env self w =
     (if \<not> driver_ok env then (False, self, w)
      else
        (case with_session (session_run env Ping) (w\<lparr>drivers_open := Suc (drivers_open w)\<rparr>) of
           (Inl e, w') \<Rightarrow> (False, self\<lparr>driver := True\<rparr>, w')
         | (Inr r, w') \<Rightarrow> (True, self\<lparr>driver := True\<rparr>, w')))"

definition close :: "loader \<Rightarrow> world \<Rightarrow> world" where
  "close self w = (if driver self then w\<lparr>drivers_open := drivers_open w - 1\<rparr> else w)"

definition clear_body :: "env \<Rightarrow> string \<Rightarrow> world \<Rightarrow> (error + unit) \<times> world" where
  "clear_body env dataset_name w =
     (case session_run env (ClearDataset dataset_name) w of
        (Inl e, w') \<Rightarrow> (Inl e, w')
      | (Inr r, w') \<Rightarrow> (Inr (), w'))"

definition clear_graph :: "env \<Rightarrow> loader \<Rightarrow> string \<Rightarrow> world \<Rightarrow> (error + unit) \<times> world" where
  "clear_graph env self dataset_name w =
     (if \<not> driver self then (Inl RuntimeError, w)
      else with_session (clear_body env dataset_name) w)"

text \<open>
  The statements of one iteration of the relationship-list loop up to the \<^verbatim>\<open>try\<close>:
  an error, \<open>None\<close> for \<^verbatim>\<open>continue\<close>, or the parameters of the write.
\<close>

definition rel_record :: "string \<Rightarrow> json \<Rightarrow> error + rel_write option" where
  "rel_record dataset_name item =
     (bind_err (py_get item ''start_node'' (JDict [])) (\<lambda>start_node.
      bind_err (py_get item ''end_node'' (JDict [])) (\<lambda>end_node.
      bind_err (py_get item ''relation'' (JStr ''RELATED_TO'')) (\<lambda>relation.
      bind_err (py_get start_node ''properties'' (JDict [])) (\<lambda>start_props.
      bind_err (py_get end_node ''properties'' (JDict [])) (\<lambda>end_props.
      bind_err (py_get start_props ''name'' (JStr [])) (\<lambda>start_name.
      bind_err (py_get end_props ''name'' (JStr [])) (\<lambda>end_name.
      if \<not> truthy start_name \<or> \<not> truthy end_name then Inr None
      else
      bind_err (py_get start_node ''label'' (JStr ''Entity'')) (\<lambda>start_label.
      bind_err (py_get start_props ''schema_type'' start_label) (\<lambda>start_type.
      bind_err (py_get end_node ''label'' (JStr ''Entity'')) (\<lambda>end_label.
      bind_err (py_get end_props ''schema_type'' end_label) (\<lambda>end_type.
        Inr (Some \<lparr>rw_start_name = start_name, rw_end_name = end_name,
                   rw_dataset = dataset_name, rw_start_type = start_type,
                   rw_end_type = end_type, rw_start_props = dict_items start_props,
                   rw_end_props = dict_items end_props, rw_relation = relation\<rparr>)))))))))))))"

text \<open>
  The loop of \<^verbatim>\<open>_load_relationship_list_format\<close>, with the two counters as accumulator.
\<close>

fun rel_loop :: "env \<Rightarrow> string \<Rightarrow> json list \<Rightarrow> int \<times> int \<Rightarrow> world \<Rightarrow> (error + int \<times> int) \<times> world" where
  "rel_loop env ds [] c w = (Inr c, w)"
| "rel_loop env ds (item # items) c w =
     (if \<not> is_dict item then rel_loop env ds items c w
      else
        (case rel_record ds item of
           Inl e \<Rightarrow> (Inl e, w)
         | Inr None \<Rightarrow> rel_loop env ds items c w
         | Inr (Some p) \<Rightarrow>
             (case session_run env (MergeRelationship p) w of
                (Inl e, w') \<Rightarrow> rel_loop env ds items c w'
              | (Inr r, w') \<Rightarrow>
                  if r then rel_loop env ds items (fst c + 2, snd c + 1) w'
                  else rel_loop env ds items c w')))"

record stats =
  nodes_created :: int
  relationships_created :: int
  format :: string

text \<open>The body of the \<^verbatim>\<open>with\<close> block, then the function around it.\<close>

definition relationship_list_body :: "env \<Rightarrow> string \<Rightarrow> json list \<Rightarrow> world \<Rightarrow> (error + stats) \<times> world" where
  "relationship_list_body env dataset_name graph_data w =
     (case rel_loop env dataset_name graph_data (0, 0) w of
        (Inl e, w') \<Rightarrow> (Inl e, w')
      | (Inr c, w') \<Rightarrow>
          (Inr \<lparr>nodes_created = fst c, relationships_created = snd c,
                format = ''relationship_list''\<rparr>, w'))"

definition load_relationship_list_format :: "env \<Rightarrow> loader \<Rightarrow> json list \<Rightarrow> string \<Rightarrow> world \<Rightarrow> (error + stats) \<times> world" where
  "load_relationship_list_format env self graph_data dataset_name w =
     (if \<not> driver self then (Inl AttributeError, w)
      else with_session (relationship_list_body env dataset_name graph_data) w)"

text \<open>The iterations of the two loops of \<^verbatim>\<open>_load_standard_format\<close> up to the \<^verbatim>\<open>try\<close>.\<close>

definition node_record :: "string \<Rightarrow> json \<Rightarrow> error + node_write option" where
  "node_record dataset_name node =
     (bind_err (py_get node ''id'' (JStr [])) (\<lambda>node_id.
      bind_err (py_get node ''name'' node_id) (\<lambda>name.
      bind_err (py_get node ''type'' (JStr ''Entity'')) (\<lambda>node_type.
      bind_err (py_get node ''attributes'' (JList [])) (\<lambda>attributes.
      if \<not> truthy node_id then Inr None
      else Inr (Some \<lparr>nw_id = node_id, nw_name = name, nw_type = node_type,
                      nw_attributes = attributes, nw_dataset = dataset_name\<rparr>))))))"

definition edge_record :: "string \<Rightarrow> json \<Rightarrow> error + edge_write option" where
  "edge_record dataset_name edge =
     (bind_err (py_get edge ''source'' (JStr [])) (\<lambda>source.
      bind_err (py_get edge ''target'' (JStr [])) (\<lambda>target.
      bind_err (py_get edge ''relation'' (JStr ''RELATED_TO'')) (\<lambda>relation.
      bind_err (py_get edge ''weight'' (JNum 1)) (\<lambda>weight.
      if \<not> truthy source \<or> \<not> truthy target then Inr None
      else Inr (Some \<lparr>ew_source = source, ew_target = target, ew_relation = relation,
                      ew_weight = weight, ew_dataset = dataset_name\<rparr>))))))"

fun node_loop :: "env \<Rightarrow> string \<Rightarrow> json list \<Rightarrow> int \<Rightarrow> world \<Rightarrow> (error + int) \<times> world" where
  "node_loop env ds [] c w = (Inr c, w)"
| "node_loop env ds (node # nodes) c w =
     (case node_record ds node of
        Inl e \<Rightarrow> (Inl e, w)
      | Inr None \<Rightarrow> node_loop env ds nodes c w
      | Inr (Some p) \<Rightarrow>
          (case session_run env (MergeNode p) w of
             (Inl e, w') \<Rightarrow> node_loop env ds nodes c w'
           | (Inr r, w') \<Rightarrow> node_loop env ds nodes (c + 1) w'))"

fun edge_loop :: "env \<Rightarrow> string \<Rightarrow> json list \<Rightarrow> int \<Rightarrow> world \<Rightarrow> (error + int) \<times> world" where
  "edge_loop env ds [] c w = (Inr c, w)"
| "edge_loop env ds (edge # edges) c w =
     (case edge_record ds edge of
        Inl e \<Rightarrow> (Inl e, w)
      | Inr None \<Rightarrow> edge_loop env ds edges c w
      | Inr (Some p) \<Rightarrow>
          (case session_run env (MergeEdge p) w of
             (Inl e, w') \<Rightarrow> edge_loop env ds edges c w'
           | (Inr r, w') \<Rightarrow> edge_loop env ds edges (c + 1) w'))"

text \<open>The body of the \<^verbatim>\<open>with\<close> block: all of the node loop, then the edge loop.\<close>

definition standard_body :: "env \<Rightarrow> string \<Rightarrow> json list \<Rightarrow> json list \<Rightarrow> world \<Rightarrow> (error + stats) \<times> world" where
  "standard_body env dataset_name nodes edges w =
     (case node_loop env dataset_name nodes 0 w of
        (Inl e, w1) \<Rightarrow> (Inl e, w1)
      | (Inr nc, w1) \<Rightarrow>
          (case edge_loop env dataset_name edges 0 w1 of
             (Inl e, w2) \<Rightarrow> (Inl e, w2)
           | (Inr rc, w2) \<Rightarrow>
               (Inr \<lparr>nodes_created = nc, relationships_created = rc,
                     format = ''standard''\<rparr>, w2)))"

text \<open>
  \<^verbatim>\<open>len(nodes)\<close> and \<^verbatim>\<open>len(edges)\<close> are evaluated for the log line before the session
  is opened.
\<close>

definition load_standard_format :: "env \<Rightarrow> loader \<Rightarrow> json \<Rightarrow> string \<Rightarrow> world \<Rightarrow> (error + stats) \<times> world" where
  "load_standard_format env self graph_data dataset_name w =
     (case bind_err (py_get graph_data ''nodes'' (JList [])) (\<lambda>nodes.
           bind_err (py_get graph_data ''edges'' (JList [])) (\<lambda>edges.
           bind_err (py_len nodes) (\<lambda>n_nodes.
           bind_err (py_len edges) (\<lambda>n_edges. Inr (nodes, edges))))) of
        Inl e \<Rightarrow> (Inl e, w)
      | Inr (nodes, edges) \<Rightarrow>
          if \<not> driver self then (Inl AttributeError, w)
          else with_session (standard_body env dataset_name (py_iter nodes) (py_iter edges)) w)"

definition load_graph_from_json :: "env \<Rightarrow> loader \<Rightarrow> string \<Rightarrow> string \<Rightarrow> bool \<Rightarrow> world \<Rightarrow> (error + stats) \<times> world" where
  "load_graph_from_json env self graph_path dataset_name clear_existing w =
     (if \<not> driver self then (Inl RuntimeError, w)
      else
        (case files env graph_path of
           Absent \<Rightarrow> (Inl FileNotFoundError, w)
         | Malformed \<Rightarrow> (Inl JSONDecodeError, w)
         | Content graph_data \<Rightarrow>
             (case (if clear_existing then clear_graph env self dataset_name w else (Inr (), w)) of
                (Inl e, w1) \<Rightarrow> (Inl e, w1)
              | (Inr u, w1) \<Rightarrow>
                  if is_list graph_data then
                    load_relationship_list_format env self (py_iter graph_data) dataset_name w1
                  else if is_dict graph_data \<and> py_in ''nodes'' graph_data then
                    load_standard_format env self graph_data dataset_name w1
                  else (Inl ValueError, w1))))"

text \<open>
  The public function. \<open>Inl\<close> would be an exception that reaches the caller; the result
  \<open>Inr None\<close> is the return value \<^verbatim>\<open>None\<close>. The \<^verbatim>\<open>finally\<close> clause runs on every path.
\<close>

definition load_graph_to_neo4j :: "env \<Rightarrow> string \<Rightarrow> string \<Rightarrow> bool \<Rightarrow> world \<Rightarrow> (error + stats option) \<times> world" where
  "load_graph_to_neo4j env graph_path dataset_name clear_existing w =
     (case connect env Neo4jLoader w of (ok, loader, w1) \<Rightarrow>
      case (if \<not> ok then (Inr None, w1)
            else (case load_graph_from_json env loader graph_path dataset_name clear_existing w1 of
                    (Inl e, w2) \<Rightarrow> (Inl e, w2)
                  | (Inr s, w2) \<Rightarrow> (Inr (Some s), w2))) of
        (body, w3) \<Rightarrow>
          ((case body of
              Inl e \<Rightarrow> if is_Exception e then Inr None else Inl e
            | Inr r \<Rightarrow> Inr r),
           close loader w3))"

section \<open>Example surroundings\<close>

text \<open>
  A server that accepts every statement, one that rejects the first statement it
  receives and accepts the others, a loader that holds a driver, and a world with an
  empty database and nothing open.
\<close>

definition reliable :: "(string \<Rightarrow> file_state) \<Rightarrow> env" where
  "reliable fs = \<lparr>fault = (\<lambda>i. False), driver_ok = True, files = fs\<rparr>"

definition flaky :: env where
  "flaky = \<lparr>fault = (\<lambda>i. i = 0), driver_ok = True, files = (\<lambda>p. Absent)\<rparr>"

definition connected :: loader where
  "connected = \<lparr>driver = True\<rparr>"

definition fresh_world :: world where
  "fresh_world = \<lparr>db = empty_graph, trace = [], drivers_open = 0, sessions_open = 0\<rparr>"

text \<open>A relationship record between two named endpoints.\<close>

definition endpoint :: "string \<Rightarrow> json" where
  "endpoint name = JDict [(''label'', JStr ''entity''), (''properties'', JDict [(''name'', JStr name)])]"

definition relationship :: "string \<Rightarrow> string \<Rightarrow> string \<Rightarrow> json" where
  "relationship a r b =
     JDict [(''start_node'', endpoint a), (''end_node'', endpoint b), (''relation'', JStr r)]"

text \<open>A relationship list whose start node carries the tag of another dataset.\<close>

definition retagging :: json where
  "retagging =
     JList [JDict [(''start_node'', JDict [(''label'', JStr ''entity''),
                      (''properties'', JDict [(''name'', JStr ''A''), (''dataset'', JStr ''other'')])]),
                   (''end_node'', endpoint ''B''),
                   (''relation'', JStr ''r'')]]"

text \<open>
  The second and the third scenario of the specification: two nodes and the edge between
  them, and an edge to a node that is not there.
\<close>

definition alice_bob :: json where
  "alice_bob =
     JDict [(''nodes'', JList [JDict [(''id'', JStr ''1''), (''name'', JStr ''Alice''), (''type'', JStr ''person'')],
                               JDict [(''id'', JStr ''2''), (''name'', JStr ''Bob''), (''type'', JStr ''person'')]]),
            (''edges'', JList [JDict [(''source'', JStr ''1''), (''target'', JStr ''2''),
                                      (''relation'', JStr ''knows''), (''weight'', JNum 2)]])]"

definition dangling_doc :: json where
  "dangling_doc =
     JDict [(''nodes'', JList [JDict [(''id'', JStr ''1''), (''name'', JStr ''Alice'')]]),
            (''edges'', JList [JDict [(''source'', JStr ''1''), (''target'', JStr ''99''),
                                      (''relation'', JStr ''knows'')]])]"

text \<open>A world whose database already holds a node of dataset \<open>demo\<close>.\<close>

definition stocked_world :: world where
  "stocked_world =
     fresh_world\<lparr>db := \<lparr>g_nodes = [\<lparr>nid = 1, labels = [''Entity''],
                                     nprops = [(''name'', JStr ''A''), (''dataset'', JStr ''demo'')]\<rparr>],
                         g_edges = []\<rparr>\<rparr>"

text \<open>
  A node of dataset A and a node of dataset B with the same name, joined by a relationship
  tagged B.
\<close>

definition crossed_world :: world where
  "crossed_world =
     fresh_world\<lparr>db := \<lparr>g_nodes = [\<lparr>nid = 1, labels = [''Entity''],
                                     nprops = [(''name'', JStr ''X''), (''dataset'', JStr ''A'')]\<rparr>,
                                   \<lparr>nid = 2, labels = [''Entity''],
                                     nprops = [(''name'', JStr ''X''), (''dataset'', JStr ''B'')]\<rparr>],
                         g_edges = [\<lparr>esrc = 1, edst = 2, etype = ''RELATES'',
                                     eprops = [(''type'', JStr ''r''), (''dataset'', JStr ''B'')]\<rparr>]\<rparr>\<rparr>"

text \<open>
  Two nodes of dataset B joined by a relationship tagged B, and a node of dataset A with
  the name of one of them.
\<close>

definition stocked_pair :: world where
  "stocked_pair =
     fresh_world\<lparr>db := \<lparr>g_nodes = [\<lparr>nid = 1, labels = [''Entity''],
                                     nprops = [(''name'', JStr ''X''), (''dataset'', JStr ''A'')]\<rparr>,
                                   \<lparr>nid = 2, labels = [''Entity''],
                                     nprops = [(''name'', JStr ''X''), (''dataset'', JStr ''B'')]\<rparr>,
                                   \<lparr>nid = 3, labels = [''Entity''],
                                     nprops = [(''name'', JStr ''Y''), (''dataset'', JStr ''B'')]\<rparr>],
                         g_edges = [\<lparr>esrc = 2, edst = 3, etype = ''RELATES'',
                                     eprops = [(''type'', JStr ''r''), (''dataset'', JStr ''B'')]\<rparr>]\<rparr>\<rparr>"

section \<open>Notions of the statements\<close>

text \<open>
  The surroundings with a server that never raises, and what a loop sends whatever the
  server answers: the statements of the records that pass the checks, up to the first
  record that raises (the flag), as read off the loop.
\<close>

definition without_faults :: "env \<Rightarrow> env" where
  "without_faults env = env\<lparr>fault := (\<lambda>i. False)\<rparr>"

fun rel_attempts :: "string \<Rightarrow> json list \<Rightarrow> request list \<times> bool" where
  "rel_attempts ds [] = ([], False)"
| "rel_attempts ds (item # items) =
     (if \<not> is_dict item then rel_attempts ds items
      else (case rel_record ds item of
              Inl e \<Rightarrow> ([], True)
            | Inr None \<Rightarrow> rel_attempts ds items
            | Inr (Some p) \<Rightarrow> (MergeRelationship p # fst (rel_attempts ds items), snd (rel_attempts ds items))))"

fun node_attempts :: "string \<Rightarrow> json list \<Rightarrow> request list \<times> bool" where
  "node_attempts ds [] = ([], False)"
| "node_attempts ds (node # nodes) =
     (case node_record ds node of
        Inl e \<Rightarrow> ([], True)
      | Inr None \<Rightarrow> node_attempts ds nodes
      | Inr (Some p) \<Rightarrow> (MergeNode p # fst (node_attempts ds nodes), snd (node_attempts ds nodes)))"

fun edge_attempts :: "string \<Rightarrow> json list \<Rightarrow> request list \<times> bool" where
  "edge_attempts ds [] = ([], False)"
| "edge_attempts ds (edge # edges) =
     (case edge_record ds edge of
        Inl e \<Rightarrow> ([], True)
      | Inr None \<Rightarrow> edge_attempts ds edges
      | Inr (Some p) \<Rightarrow> (MergeEdge p # fst (edge_attempts ds edges), snd (edge_attempts ds edges)))"

text \<open>
  The two kinds of write of the standard ingester, and an edge whose two ends are nodes
  of a node list tagged with the dataset.
\<close>

fun is_node_write :: "request \<Rightarrow> bool" where
  "is_node_write (MergeNode p) = True"
| "is_node_write _ = False"

fun is_edge_write :: "request \<Rightarrow> bool" where
  "is_edge_write (MergeEdge p) = True"
| "is_edge_write _ = False"

definition anchored :: "string \<Rightarrow> node list \<Rightarrow> edge \<Rightarrow> bool" where
  "anchored ds ns e \<longleftrightarrow>
     list_ex (\<lambda>a. nid a = esrc e \<and> in_dataset ds a) ns \<and>
     list_ex (\<lambda>b. nid b = edst e \<and> in_dataset ds b) ns"

text \<open>
  The dataset tag of a relationship, and a relationship attached to a node that carries
  a given dataset tag.
\<close>

definition edge_in_dataset :: "string \<Rightarrow> edge \<Rightarrow> bool" where
  "edge_in_dataset ds e \<longleftrightarrow> map_of (eprops e) ''dataset'' = Some (JStr ds)"

definition touches :: "string \<Rightarrow> graph \<Rightarrow> edge \<Rightarrow> bool" where
  "touches ds g e \<longleftrightarrow>
     list_ex (\<lambda>n. in_dataset ds n \<and> (nid n = esrc e \<or> nid n = edst e)) (g_nodes g)"

text \<open>
  The identities of the nodes that the pattern \<^verbatim>\<open>(:Entity {name: v, dataset: d})\<close>
  matches, and a property map that a \<^verbatim>\<open>+=\<close> can apply to such a node without moving it
  to another name or dataset: it holds the name itself and no other dataset.
\<close>

definition matches :: "json \<Rightarrow> string \<Rightarrow> graph \<Rightarrow> nat list" where
  "matches v d g = map nid (filter (has_key ''name'' v d) (g_nodes g))"

definition tame :: "json \<Rightarrow> string \<Rightarrow> props \<Rightarrow> bool" where
  "tame name ds ps \<longleftrightarrow>
     map_of ps ''name'' = Some name \<and> name \<noteq> JNull \<and>
     (map_of ps ''dataset'' = None \<or> map_of ps ''dataset'' = Some (JStr ds))"

text \<open>
  A relationship write is settled in a graph when both endpoints have a match and every
  pair of matches is joined by the relationship. Its property maps are tame when both
  endpoints' are.
\<close>

definition sat :: "rel_write \<Rightarrow> graph \<Rightarrow> bool" where
  "sat p g \<longleftrightarrow>
     matches (rw_start_name p) (rw_dataset p) g \<noteq> [] \<and>
     matches (rw_end_name p) (rw_dataset p) g \<noteq> [] \<and>
     (\<forall>a\<in>set (matches (rw_start_name p) (rw_dataset p) g).
      \<forall>b\<in>set (matches (rw_end_name p) (rw_dataset p) g).
        \<exists>e\<in>set (g_edges g). rel_is a b (rw_relation p) (rw_dataset p) e)"

definition tame_write :: "rel_write \<Rightarrow> bool" where
  "tame_write p \<longleftrightarrow>
     tame (rw_start_name p) (rw_dataset p) (rw_start_props p) \<and>
     tame (rw_end_name p) (rw_dataset p) (rw_end_props p)"

text \<open>
  An element of a relationship list retags when the properties of one of its endpoints
  carry a \<open>dataset\<close> entry that is not the name of the dataset being loaded.
\<close>

fun foreign_tag :: "string \<Rightarrow> json \<Rightarrow> bool" where
  "foreign_tag ds (JDict kv) =
     (case map_of kv ''dataset'' of None \<Rightarrow> False | Some v \<Rightarrow> v \<noteq> JStr ds)"
| "foreign_tag ds _ = False"

definition node_props :: "json \<Rightarrow> string \<Rightarrow> json" where
  "node_props item k =
     (case py_get item k (JDict []) of
        Inl e \<Rightarrow> JNull
      | Inr n \<Rightarrow> (case py_get n ''properties'' (JDict []) of Inl e \<Rightarrow> JNull | Inr ps \<Rightarrow> ps))"

definition retags :: "string \<Rightarrow> json \<Rightarrow> bool" where
  "retags ds item \<longleftrightarrow>
     foreign_tag ds (node_props item ''start_node'') \<or> foreign_tag ds (node_props item ''end_node'')"

section \<open>The loops, piecewise\<close>

lemma session_run_drivers_open: "drivers_open (snd (session_run env q w)) = drivers_open w"
  by (simp add: session_run_def split: prod.splits)

lemma session_run_sessions_open: "sessions_open (snd (session_run env q w)) = sessions_open w"
  by (simp add: session_run_def split: prod.splits)

lemma rel_loop_append:
  "rel_loop env ds (xs @ ys) c w =
     (case rel_loop env ds xs c w of (Inl e, w') \<Rightarrow> (Inl e, w') | (Inr c', w') \<Rightarrow> rel_loop env ds ys c' w')"
proof (induction xs arbitrary: c w)
  case Nil
  show ?case by simp
next
  case (Cons x xs)
  show ?case
    by (simp add: Cons.IH split: sum.splits option.splits prod.splits)
qed

lemma node_loop_append:
  "node_loop env ds (xs @ ys) c w =
     (case node_loop env ds xs c w of (Inl e, w') \<Rightarrow> (Inl e, w') | (Inr c', w') \<Rightarrow> node_loop env ds ys c' w')"
proof (induction xs arbitrary: c w)
  case Nil
  show ?case by simp
next
  case (Cons x xs)
  show ?case
    by (simp add: Cons.IH split: sum.splits option.splits prod.splits)
qed

lemma edge_loop_append:
  "edge_loop env ds (xs @ ys) c w =
     (case edge_loop env ds xs c w of (Inl e, w') \<Rightarrow> (Inl e, w') | (Inr c', w') \<Rightarrow> edge_loop env ds ys c' w')"
proof (induction xs arbitrary: c w)
  case Nil
  show ?case by simp
next
  case (Cons x xs)
  show ?case
    by (simp add: Cons.IH split: sum.splits option.splits prod.splits)
qed

lemma rel_loop_skip_middle:
  assumes "\<And>c w. rel_loop env ds (x # ys) c w = rel_loop env ds ys c w"
  shows "rel_loop env ds (xs @ x # ys) c w = rel_loop env ds (xs @ ys) c w"
  by (simp add: rel_loop_append [of env ds xs] assms del: rel_loop.simps split: prod.splits sum.splits)

lemma rel_list_skip_middle:
  assumes "\<And>c w. rel_loop env ds (x # ys) c w = rel_loop env ds ys c w"
  shows "load_relationship_list_format env self (xs @ x # ys) ds w =
         load_relationship_list_format env self (xs @ ys) ds w"
proof -
  have "relationship_list_body env ds (xs @ x # ys) = relationship_list_body env ds (xs @ ys)"
    by (rule ext) (simp only: relationship_list_body_def rel_loop_skip_middle [OF assms])
  then show ?thesis
    by (simp add: load_relationship_list_format_def)
qed

lemma node_loop_skip_middle:
  assumes "\<And>c w. node_loop env ds (x # ys) c w = node_loop env ds ys c w"
  shows "node_loop env ds (xs @ x # ys) c w = node_loop env ds (xs @ ys) c w"
  by (simp add: node_loop_append [of env ds xs] assms del: node_loop.simps split: prod.splits sum.splits)

lemma edge_loop_skip_middle:
  assumes "\<And>c w. edge_loop env ds (x # ys) c w = edge_loop env ds ys c w"
  shows "edge_loop env ds (xs @ x # ys) c w = edge_loop env ds (xs @ ys) c w"
  by (simp add: edge_loop_append [of env ds xs] assms del: edge_loop.simps split: prod.splits sum.splits)

lemma rel_record_empty_name:
  assumes "py_get item ''start_node'' (JDict []) = Inr sn"
    and "py_get item ''end_node'' (JDict []) = Inr en"
    and "py_get sn ''properties'' (JDict []) = Inr sp"
    and "py_get en ''properties'' (JDict []) = Inr ep"
    and "py_get sp ''name'' (JStr []) = Inr sname"
    and "py_get ep ''name'' (JStr []) = Inr ename"
    and "\<not> truthy sname \<or> \<not> truthy ename"
  shows "rel_record ds item = Inr None"
proof -
  from assms(1) obtain kv where item: "item = JDict kv"
    by (cases item) simp_all
  show ?thesis
    using assms by (simp add: rel_record_def bind_err_def item)
qed

lemma rel_skip_empty_name:
  assumes "py_get item ''start_node'' (JDict []) = Inr sn"
    and "py_get item ''end_node'' (JDict []) = Inr en"
    and "py_get sn ''properties'' (JDict []) = Inr sp"
    and "py_get en ''properties'' (JDict []) = Inr ep"
    and "py_get sp ''name'' (JStr []) = Inr sname"
    and "py_get ep ''name'' (JStr []) = Inr ename"
    and "\<not> truthy sname \<or> \<not> truthy ename"
  shows "load_relationship_list_format env self (xs @ item # ys) ds w =
         load_relationship_list_format env self (xs @ ys) ds w"
proof -
  have r: "rel_record ds item = Inr None"
    using assms by (rule rel_record_empty_name)
  show ?thesis
    by (rule rel_list_skip_middle) (simp add: r)
qed

lemma node_record_empty_id:
  assumes "py_get node ''id'' (JStr []) = Inr node_id" and "\<not> truthy node_id"
  shows "node_record ds node = Inr None"
proof -
  from assms(1) obtain kv where "node = JDict kv"
    by (cases node) simp_all
  then show ?thesis
    using assms by (simp add: node_record_def bind_err_def)
qed

lemma edge_record_empty_endpoint:
  assumes "py_get edge ''source'' (JStr []) = Inr source"
    and "py_get edge ''target'' (JStr []) = Inr target"
    and "\<not> truthy source \<or> \<not> truthy target"
  shows "edge_record ds edge = Inr None"
proof -
  from assms(1) obtain kv where "edge = JDict kv"
    by (cases edge) simp_all
  then show ?thesis
    using assms by (simp add: edge_record_def bind_err_def)
qed

lemma node_skip_empty_id:
  assumes "py_get node ''id'' (JStr []) = Inr node_id" and "\<not> truthy node_id"
    and "py_get gd ''nodes'' (JList []) = Inr (JList (ns @ node # ns'))"
    and "py_get gd' ''nodes'' (JList []) = Inr (JList (ns @ ns'))"
    and "py_get gd' ''edges'' (JList []) = py_get gd ''edges'' (JList [])"
  shows "load_standard_format env self gd ds w = load_standard_format env self gd' ds w"
proof -
  have r: "node_record ds node = Inr None"
    using assms(1,2) by (rule node_record_empty_id)
  have l: "node_loop env ds (ns @ node # ns') c w = node_loop env ds (ns @ ns') c w" for c w
    by (rule node_loop_skip_middle) (simp add: r)
  from assms(3) obtain kv where gd: "gd = JDict kv"
    by (cases gd) simp_all
  from assms(4) obtain kv' where gd': "gd' = JDict kv'"
    by (cases gd') simp_all
  obtain edges where e: "py_get (JDict kv) ''edges'' (JList []) = Inr edges"
    by simp
  have e': "py_get (JDict kv') ''edges'' (JList []) = Inr edges"
    using assms(5) e by (simp only: gd gd')
  have b: "standard_body env ds (ns @ node # ns') es = standard_body env ds (ns @ ns') es" for es
    by (rule ext) (simp add: standard_body_def l)
  show ?thesis
    unfolding load_standard_format_def gd gd' assms(3) [unfolded gd] assms(4) [unfolded gd'] e e'
    by (cases "py_len edges") (simp_all add: bind_err_def b)
qed

lemma edge_skip_empty_endpoint:
  assumes "py_get edge ''source'' (JStr []) = Inr source"
    and "py_get edge ''target'' (JStr []) = Inr target"
    and "\<not> truthy source \<or> \<not> truthy target"
    and "py_get gd ''edges'' (JList []) = Inr (JList (es @ edge # es'))"
    and "py_get gd' ''edges'' (JList []) = Inr (JList (es @ es'))"
    and "py_get gd' ''nodes'' (JList []) = py_get gd ''nodes'' (JList [])"
  shows "load_standard_format env self gd ds w = load_standard_format env self gd' ds w"
proof -
  have r: "edge_record ds edge = Inr None"
    using assms(1,2,3) by (rule edge_record_empty_endpoint)
  have l: "edge_loop env ds (es @ edge # es') c w = edge_loop env ds (es @ es') c w" for c w
    by (rule edge_loop_skip_middle) (simp add: r)
  from assms(4) obtain kv where gd: "gd = JDict kv"
    by (cases gd) simp_all
  from assms(5) obtain kv' where gd': "gd' = JDict kv'"
    by (cases gd') simp_all
  obtain nodes where n: "py_get (JDict kv) ''nodes'' (JList []) = Inr nodes"
    by simp
  have n': "py_get (JDict kv') ''nodes'' (JList []) = Inr nodes"
    using assms(6) n by (simp only: gd gd')
  have b: "standard_body env ds ns (es @ edge # es') = standard_body env ds ns (es @ es')" for ns
    by (rule ext) (simp add: standard_body_def l cong: prod.case_cong sum.case_cong)
  show ?thesis
    unfolding load_standard_format_def gd gd' assms(4) [unfolded gd] assms(5) [unfolded gd'] n n'
    by (cases "py_len nodes") (simp_all add: bind_err_def b)
qed

section \<open>Skipped records\<close>

text \<open>
  C10. In relationship-list loading a list element that is not a mapping is skipped
  silently: wherever it stands in the list, the load returns the same result and leaves
  the same world (database, statements sent) as the load of the list without it. So it
  raises nothing, writes nothing and changes no counter, and the other elements are
  loaded as usual.
\<close>

theorem non_mapping_element_skipped:
  "\<not> is_dict x \<Longrightarrow>
     load_relationship_list_format env self (xs @ x # ys) ds w =
     load_relationship_list_format env self (xs @ ys) ds w"
  by (rule rel_list_skip_middle) simp

theorem non_mapping_element_skipped_witness:
  "\<not> is_dict (JNum 42) \<and>
   load_relationship_list_format (reliable (\<lambda>p. Absent)) connected
     ([JStr ''x''] @ JNum 42 # [relationship ''A'' ''located_in'' ''B'']) ''demo'' fresh_world =
   load_relationship_list_format (reliable (\<lambda>p. Absent)) connected
     ([JStr ''x''] @ [relationship ''A'' ''located_in'' ''B'']) ''demo'' fresh_world"
  using non_mapping_element_skipped [of "JNum 42" "reliable (\<lambda>p. Absent)" connected "[JStr ''x'']"
      "[relationship ''A'' ''located_in'' ''B'']" "''demo''" fresh_world]
  by simp

text \<open>
  C6. A record with an empty required identity field is skipped: the load of an input
  that contains it returns the same result and leaves the same world as the load of the
  input without it. This holds for a relationship record (mappings where the loader
  reads mappings) whose start or end name is empty, for a node record whose id is empty,
  and for an edge record whose source or target is empty. Empty is what the loader tests:
  a value that Python takes for false, which includes the absent field.
\<close>

theorem empty_identity_records_skipped:
  "(py_get item ''start_node'' (JDict []) = Inr sn \<and>
    py_get item ''end_node'' (JDict []) = Inr en \<and>
    py_get sn ''properties'' (JDict []) = Inr sp \<and>
    py_get en ''properties'' (JDict []) = Inr ep \<and>
    py_get sp ''name'' (JStr []) = Inr sname \<and>
    py_get ep ''name'' (JStr []) = Inr ename \<and>
    (\<not> truthy sname \<or> \<not> truthy ename) \<longrightarrow>
      load_relationship_list_format env self (xs @ item # ys) ds w =
      load_relationship_list_format env self (xs @ ys) ds w) \<and>
   (py_get node ''id'' (JStr []) = Inr node_id \<and> \<not> truthy node_id \<and>
    py_get gd ''nodes'' (JList []) = Inr (JList (ns @ node # ns')) \<and>
    py_get gd' ''nodes'' (JList []) = Inr (JList (ns @ ns')) \<and>
    py_get gd' ''edges'' (JList []) = py_get gd ''edges'' (JList []) \<longrightarrow>
      load_standard_format env self gd ds w = load_standard_format env self gd' ds w) \<and>
   (py_get edge ''source'' (JStr []) = Inr source \<and>
    py_get edge ''target'' (JStr []) = Inr target \<and>
    (\<not> truthy source \<or> \<not> truthy target) \<and>
    py_get doc ''edges'' (JList []) = Inr (JList (es @ edge # es')) \<and>
    py_get doc' ''edges'' (JList []) = Inr (JList (es @ es')) \<and>
    py_get doc' ''nodes'' (JList []) = py_get doc ''nodes'' (JList []) \<longrightarrow>
      load_standard_format env self doc ds w = load_standard_format env self doc' ds w)"
proof (intro conjI impI)
  assume "py_get item ''start_node'' (JDict []) = Inr sn \<and>
    py_get item ''end_node'' (JDict []) = Inr en \<and>
    py_get sn ''properties'' (JDict []) = Inr sp \<and>
    py_get en ''properties'' (JDict []) = Inr ep \<and>
    py_get sp ''name'' (JStr []) = Inr sname \<and>
    py_get ep ''name'' (JStr []) = Inr ename \<and>
    (\<not> truthy sname \<or> \<not> truthy ename)"
  then show "load_relationship_list_format env self (xs @ item # ys) ds w =
      load_relationship_list_format env self (xs @ ys) ds w"
    by (intro rel_skip_empty_name [of item sn en sp ep sname ename]) simp_all
next
  assume "py_get node ''id'' (JStr []) = Inr node_id \<and> \<not> truthy node_id \<and>
    py_get gd ''nodes'' (JList []) = Inr (JList (ns @ node # ns')) \<and>
    py_get gd' ''nodes'' (JList []) = Inr (JList (ns @ ns')) \<and>
    py_get gd' ''edges'' (JList []) = py_get gd ''edges'' (JList [])"
  then show "load_standard_format env self gd ds w = load_standard_format env self gd' ds w"
    by (intro node_skip_empty_id [of node node_id gd ns ns' gd']) simp_all
next
  assume "py_get edge ''source'' (JStr []) = Inr source \<and>
    py_get edge ''target'' (JStr []) = Inr target \<and>
    (\<not> truthy source \<or> \<not> truthy target) \<and>
    py_get doc ''edges'' (JList []) = Inr (JList (es @ edge # es')) \<and>
    py_get doc' ''edges'' (JList []) = Inr (JList (es @ es')) \<and>
    py_get doc' ''nodes'' (JList []) = py_get doc ''nodes'' (JList [])"
  then show "load_standard_format env self doc ds w = load_standard_format env self doc' ds w"
    by (intro edge_skip_empty_endpoint [of edge source target doc es es' doc']) simp_all
qed

theorem empty_identity_records_skipped_witness:
  "\<not> truthy (JStr []) \<and>
   load_relationship_list_format (reliable (\<lambda>p. Absent)) connected
     ([relationship ''A'' ''r'' ''B''] @ relationship [] ''r'' ''B'' # []) ''demo'' fresh_world =
   load_relationship_list_format (reliable (\<lambda>p. Absent)) connected
     ([relationship ''A'' ''r'' ''B''] @ []) ''demo'' fresh_world \<and>
   load_standard_format (reliable (\<lambda>p. Absent)) connected
     (JDict [(''nodes'', JList ([] @ JDict [(''id'', JStr []), (''name'', JStr ''ghost'')] # [])),
             (''edges'', JList [])]) ''demo'' fresh_world =
   load_standard_format (reliable (\<lambda>p. Absent)) connected
     (JDict [(''nodes'', JList ([] @ [])), (''edges'', JList [])]) ''demo'' fresh_world \<and>
   load_standard_format (reliable (\<lambda>p. Absent)) connected
     (JDict [(''nodes'', JList []),
             (''edges'', JList ([] @ JDict [(''source'', JStr ''1'')] # []))]) ''demo'' fresh_world =
   load_standard_format (reliable (\<lambda>p. Absent)) connected
     (JDict [(''nodes'', JList []), (''edges'', JList ([] @ []))]) ''demo'' fresh_world"
  using empty_identity_records_skipped
    [where item = "relationship [] ''r'' ''B''" and sn = "endpoint []" and en = "endpoint ''B''"
       and sp = "JDict [(''name'', JStr [])]" and ep = "JDict [(''name'', JStr ''B'')]"
       and sname = "JStr []" and ename = "JStr ''B''"
       and xs = "[relationship ''A'' ''r'' ''B'']" and ys = "[]"
       and node = "JDict [(''id'', JStr []), (''name'', JStr ''ghost'')]" and node_id = "JStr []"
       and gd = "JDict [(''nodes'', JList ([] @ JDict [(''id'', JStr []), (''name'', JStr ''ghost'')] # [])),
                        (''edges'', JList [])]"
       and gd' = "JDict [(''nodes'', JList ([] @ [])), (''edges'', JList [])]"
       and ns = "[]" and ns' = "[]"
       and edge = "JDict [(''source'', JStr ''1'')]" and source = "JStr ''1''" and target = "JStr []"
       and doc = "JDict [(''nodes'', JList []),
                        (''edges'', JList ([] @ JDict [(''source'', JStr ''1'')] # []))]"
       and doc' = "JDict [(''nodes'', JList []), (''edges'', JList ([] @ []))]"
       and es = "[]" and es' = "[]"
       and env = "reliable (\<lambda>p. Absent)" and self = connected and ds = "''demo''" and w = fresh_world]
  by (simp add: relationship_def endpoint_def)

section \<open>Drivers and sessions\<close>

lemma with_session_sessions_open:
  assumes "\<And>v. sessions_open (snd (body v)) = sessions_open v"
  shows "sessions_open (snd (with_session body w)) = sessions_open w"
proof -
  obtain r v where b: "body (w\<lparr>sessions_open := Suc (sessions_open w)\<rparr>) = (r, v)"
    by (cases "body (w\<lparr>sessions_open := Suc (sessions_open w)\<rparr>)")
  have "sessions_open v = Suc (sessions_open w)"
    using assms [of "w\<lparr>sessions_open := Suc (sessions_open w)\<rparr>"] by (simp add: b)
  then show ?thesis
    by (simp add: with_session_def b)
qed

lemma with_session_drivers_open:
  assumes "\<And>v. drivers_open (snd (body v)) = drivers_open v"
  shows "drivers_open (snd (with_session body w)) = drivers_open w"
proof -
  obtain r v where b: "body (w\<lparr>sessions_open := Suc (sessions_open w)\<rparr>) = (r, v)"
    by (cases "body (w\<lparr>sessions_open := Suc (sessions_open w)\<rparr>)")
  have "drivers_open v = drivers_open w"
    using assms [of "w\<lparr>sessions_open := Suc (sessions_open w)\<rparr>"] by (simp add: b)
  then show ?thesis
    by (simp add: with_session_def b)
qed

lemma session_run_open:
  "session_run env q w = (r, w') \<Longrightarrow>
     sessions_open w' = sessions_open w \<and> drivers_open w' = drivers_open w"
  by (auto simp: session_run_def split: if_splits prod.splits)

lemma rel_loop_open:
  "sessions_open (snd (rel_loop env ds xs c w)) = sessions_open w \<and>
   drivers_open (snd (rel_loop env ds xs c w)) = drivers_open w"
proof (induction xs arbitrary: c w)
  case Nil
  show ?case by simp
next
  case (Cons x xs)
  show ?case
    by (auto simp: Cons.IH dest: session_run_open split: sum.splits option.splits prod.splits)
qed

lemma node_loop_open:
  "sessions_open (snd (node_loop env ds xs c w)) = sessions_open w \<and>
   drivers_open (snd (node_loop env ds xs c w)) = drivers_open w"
proof (induction xs arbitrary: c w)
  case Nil
  show ?case by simp
next
  case (Cons x xs)
  show ?case
    by (auto simp: Cons.IH dest: session_run_open split: sum.splits option.splits prod.splits)
qed

lemma edge_loop_open:
  "sessions_open (snd (edge_loop env ds xs c w)) = sessions_open w \<and>
   drivers_open (snd (edge_loop env ds xs c w)) = drivers_open w"
proof (induction xs arbitrary: c w)
  case Nil
  show ?case by simp
next
  case (Cons x xs)
  show ?case
    by (auto simp: Cons.IH dest: session_run_open split: sum.splits option.splits prod.splits)
qed

lemma relationship_list_body_open:
  "sessions_open (snd (relationship_list_body env ds xs w)) = sessions_open w \<and>
   drivers_open (snd (relationship_list_body env ds xs w)) = drivers_open w"
  using rel_loop_open [of env ds xs "(0, 0)" w]
  by (auto simp: relationship_list_body_def split: prod.splits sum.splits)

lemma standard_body_open:
  "sessions_open (snd (standard_body env ds ns es w)) = sessions_open w \<and>
   drivers_open (snd (standard_body env ds ns es w)) = drivers_open w"
proof -
  obtain r w1 where n: "node_loop env ds ns 0 w = (r, w1)"
    by (cases "node_loop env ds ns 0 w")
  have w1: "sessions_open w1 = sessions_open w \<and> drivers_open w1 = drivers_open w"
    using node_loop_open [of env ds ns 0 w] by (simp add: n)
  show ?thesis
    using edge_loop_open [of env ds es 0 w1] w1
    by (auto simp: standard_body_def n split: prod.splits sum.splits)
qed

lemma clear_body_open:
  "sessions_open (snd (clear_body env ds w)) = sessions_open w \<and>
   drivers_open (snd (clear_body env ds w)) = drivers_open w"
  by (auto simp: clear_body_def dest: session_run_open split: prod.splits sum.splits)

lemma clear_graph_open:
  "sessions_open (snd (clear_graph env self ds w)) = sessions_open w \<and>
   drivers_open (snd (clear_graph env self ds w)) = drivers_open w"
  by (simp add: clear_graph_def with_session_sessions_open with_session_drivers_open clear_body_open)

lemma load_relationship_list_format_open:
  "sessions_open (snd (load_relationship_list_format env self xs ds w)) = sessions_open w \<and>
   drivers_open (snd (load_relationship_list_format env self xs ds w)) = drivers_open w"
  by (simp add: load_relationship_list_format_def with_session_sessions_open
      with_session_drivers_open relationship_list_body_open)

lemma load_standard_format_open:
  "sessions_open (snd (load_standard_format env self gd ds w)) = sessions_open w \<and>
   drivers_open (snd (load_standard_format env self gd ds w)) = drivers_open w"
  by (simp add: load_standard_format_def with_session_sessions_open
      with_session_drivers_open standard_body_open split: sum.splits prod.splits)

lemma load_graph_from_json_open:
  "sessions_open (snd (load_graph_from_json env self path ds clear w)) = sessions_open w \<and>
   drivers_open (snd (load_graph_from_json env self path ds clear w)) = drivers_open w"
proof (cases clear)
  case True
  obtain r w1 where c: "clear_graph env self ds w = (r, w1)"
    by (cases "clear_graph env self ds w")
  have w1: "sessions_open w1 = sessions_open w \<and> drivers_open w1 = drivers_open w"
    using clear_graph_open [of env self ds w] by (simp add: c)
  show ?thesis
    using w1 by (simp add: load_graph_from_json_def True c load_relationship_list_format_open
        load_standard_format_open split: file_state.splits sum.splits)
next
  case False
  show ?thesis
    by (simp add: load_graph_from_json_def False load_relationship_list_format_open
        load_standard_format_open split: file_state.splits)
qed

lemma connect_open:
  "connect env Neo4jLoader w = (ok, self, w') \<Longrightarrow>
     sessions_open w' = sessions_open w \<and>
     drivers_open w' = (if driver self then Suc (drivers_open w) else drivers_open w)"
proof (cases "driver_ok env")
  case False
  assume "connect env Neo4jLoader w = (ok, self, w')"
  then show ?thesis
    using False by (auto simp: connect_def Neo4jLoader_def)
next
  case True
  let ?w = "w\<lparr>drivers_open := Suc (drivers_open w)\<rparr>"
  assume c: "connect env Neo4jLoader w = (ok, self, w')"
  have p: "sessions_open (snd (session_run env Ping v)) = sessions_open v"
          "drivers_open (snd (session_run env Ping v)) = drivers_open v" for v
    by (simp_all add: session_run_sessions_open session_run_drivers_open)
  obtain r v where s: "with_session (session_run env Ping) ?w = (r, v)"
    by (cases "with_session (session_run env Ping) ?w")
  have "sessions_open v = sessions_open w \<and> drivers_open v = Suc (drivers_open w)"
    using with_session_sessions_open [of "session_run env Ping" ?w, OF p(1)]
      with_session_drivers_open [of "session_run env Ping" ?w, OF p(2)]
    by (simp add: s)
  then show ?thesis
    using c True by (auto simp: connect_def s split: sum.splits)
qed

text \<open>
  C8. Whatever happens in \<^verbatim>\<open>load_graph_to_neo4j\<close> (the driver cannot be created, the
  test statement fails, the file is missing or malformed, the format is unknown, the
  clear fails, records fail or raise), the number of open drivers and of open sessions is
  the same when the function returns as when it was called: the driver it opened has
  been closed, and so has every session.
\<close>

theorem connection_closed_on_every_path:
  "drivers_open (snd (load_graph_to_neo4j env path ds clear w)) = drivers_open w \<and>
   sessions_open (snd (load_graph_to_neo4j env path ds clear w)) = sessions_open w"
proof -
  obtain ok self w1 where c: "connect env Neo4jLoader w = (ok, self, w1)"
    by (cases "connect env Neo4jLoader w")
  note o = connect_open [OF c]
  obtain r w2 where l: "load_graph_from_json env self path ds clear w1 = (r, w2)"
    by (cases "load_graph_from_json env self path ds clear w1")
  have w2: "sessions_open w2 = sessions_open w1 \<and> drivers_open w2 = drivers_open w1"
    using load_graph_from_json_open [of env self path ds clear w1] by (simp add: l)
  show ?thesis
    using o w2 by (auto simp: load_graph_to_neo4j_def c l close_def split: sum.splits)
qed

theorem connection_closed_on_every_path_witness:
  "drivers_open (snd (load_graph_to_neo4j (reliable (\<lambda>p. Content (JNum 42))) ''g.json'' ''demo'' True fresh_world)) = 0 \<and>
   sessions_open (snd (load_graph_to_neo4j (reliable (\<lambda>p. Content (JNum 42))) ''g.json'' ''demo'' True fresh_world)) = 0"
  using connection_closed_on_every_path
    [of "reliable (\<lambda>p. Content (JNum 42))" "''g.json''" "''demo''" True fresh_world]
  by (simp add: fresh_world_def)

section \<open>The public function\<close>

lemma rel_loop_nonneg:
  "rel_loop env ds xs c w = (Inr c', w') \<Longrightarrow> 0 \<le> fst c \<Longrightarrow> 0 \<le> snd c \<Longrightarrow> 0 \<le> fst c' \<and> 0 \<le> snd c'"
proof (induction xs arbitrary: c w)
  case Nil
  then show ?case by simp
next
  case (Cons x xs)
  from Cons.prems show ?case
    by (auto split: if_splits sum.splits option.splits prod.splits dest!: Cons.IH)
qed

lemma node_loop_nonneg:
  "node_loop env ds xs c w = (Inr c', w') \<Longrightarrow> 0 \<le> c \<Longrightarrow> 0 \<le> c'"
proof (induction xs arbitrary: c w)
  case Nil
  then show ?case by simp
next
  case (Cons x xs)
  from Cons.prems show ?case
    by (auto split: if_splits sum.splits option.splits prod.splits dest!: Cons.IH)
qed

lemma edge_loop_nonneg:
  "edge_loop env ds xs c w = (Inr c', w') \<Longrightarrow> 0 \<le> c \<Longrightarrow> 0 \<le> c'"
proof (induction xs arbitrary: c w)
  case Nil
  then show ?case by simp
next
  case (Cons x xs)
  from Cons.prems show ?case
    by (auto split: if_splits sum.splits option.splits prod.splits dest!: Cons.IH)
qed

lemma with_session_fst:
  "fst (with_session body w) = fst (body (w\<lparr>sessions_open := Suc (sessions_open w)\<rparr>))"
  by (simp add: with_session_def split: prod.splits)

lemma relationship_list_body_stats:
  assumes "fst (relationship_list_body env ds xs w) = Inr s"
  shows "format s = ''relationship_list'' \<and> 0 \<le> nodes_created s \<and> 0 \<le> relationships_created s"
proof -
  obtain r w' where l: "rel_loop env ds xs (0, 0) w = (r, w')"
    by (cases "rel_loop env ds xs (0, 0) w")
  from assms obtain c where r: "r = Inr c" and s: "s = \<lparr>nodes_created = fst c, relationships_created = snd c, format = ''relationship_list''\<rparr>"
    by (auto simp: relationship_list_body_def l split: sum.splits)
  from rel_loop_nonneg [OF l [unfolded r]] show ?thesis
    by (simp add: s)
qed

lemma standard_body_stats:
  assumes "fst (standard_body env ds ns es w) = Inr s"
  shows "format s = ''standard'' \<and> 0 \<le> nodes_created s \<and> 0 \<le> relationships_created s"
proof -
  obtain r w1 where n: "node_loop env ds ns 0 w = (r, w1)"
    by (cases "node_loop env ds ns 0 w")
  obtain r' w2 where e: "edge_loop env ds es 0 w1 = (r', w2)"
    by (cases "edge_loop env ds es 0 w1")
  from assms obtain nc rc where r: "r = Inr nc" and r': "r' = Inr rc"
    and s: "s = \<lparr>nodes_created = nc, relationships_created = rc, format = ''standard''\<rparr>"
    by (auto simp: standard_body_def n e split: sum.splits)
  from node_loop_nonneg [OF n [unfolded r]] edge_loop_nonneg [OF e [unfolded r']] show ?thesis
    by (simp add: s)
qed

lemma load_graph_from_json_stats:
  assumes "fst (load_graph_from_json env self path ds clear w) = Inr s"
  shows "(format s = ''relationship_list'' \<or> format s = ''standard'') \<and>
         0 \<le> nodes_created s \<and> 0 \<le> relationships_created s"
  using assms
  by (auto simp: load_graph_from_json_def load_relationship_list_format_def
      load_standard_format_def with_session_fst
      split: if_splits file_state.splits sum.splits prod.splits
      dest!: relationship_list_body_stats standard_body_stats)

lemma clear_graph_fault:
  "driver self \<Longrightarrow> fault env (length (trace w)) \<Longrightarrow>
     clear_graph env self ds w = (Inl Neo4jError, w\<lparr>trace := trace w @ [ClearDataset ds]\<rparr>)"
  by (simp add: clear_graph_def with_session_def clear_body_def session_run_def)

lemma load_graph_from_json_fatal:
  assumes "files env path = Absent \<or> files env path = Malformed \<or>
           (clear \<and> fault env (length (trace w))) \<or>
           (\<exists>j. files env path = Content j \<and> \<not> is_list j \<and> \<not> (is_dict j \<and> py_in ''nodes'' j))"
  shows "isl (fst (load_graph_from_json env self path ds clear w))"
proof (cases "driver self")
  case False
  then show ?thesis
    by (simp add: load_graph_from_json_def)
next
  case True
  show ?thesis
  proof (cases "files env path")
    case Absent
    then show ?thesis by (simp add: load_graph_from_json_def)
  next
    case Malformed
    then show ?thesis by (simp add: load_graph_from_json_def)
  next
    case (Content j)
    show ?thesis
    proof (cases "clear \<and> fault env (length (trace w))")
      case True
      with \<open>driver self\<close> show ?thesis
        by (simp add: load_graph_from_json_def Content clear_graph_fault)
    next
      case False
      with assms Content have "\<not> is_list j \<and> \<not> (is_dict j \<and> py_in ''nodes'' j)"
        by auto
      then show ?thesis
        by (auto simp: load_graph_from_json_def Content split: prod.splits sum.splits)
    qed
  qed
qed

lemma is_Exception_all: "is_Exception e"
  by (cases e) simp_all

lemma connect_result:
  "connect env Neo4jLoader w = (ok, self, w') \<Longrightarrow>
     ok = (driver_ok env \<and> \<not> fault env (length (trace w))) \<and>
     (ok \<longrightarrow> trace w' = trace w @ [Ping])"
  by (auto simp: connect_def with_session_def session_run_def split: if_splits prod.splits sum.splits)

text \<open>
  C9. \<^verbatim>\<open>load_graph_to_neo4j\<close> never lets an exception reach its caller: it always
  returns. It returns \<^verbatim>\<open>None\<close> when the connection fails (no driver, or the test
  statement raises), when the file is absent or malformed, when the format is unknown,
  when the clear raises, and whenever \<^verbatim>\<open>load_graph_from_json\<close> raises anything else;
  otherwise it returns the stats of \<^verbatim>\<open>load_graph_from_json\<close>, which carry a format
  name and two counters that are not negative.
\<close>

theorem public_function_never_raises:
  "(\<exists>r. fst (load_graph_to_neo4j env path ds clear w) = Inr r) \<and>
   (\<not> driver_ok env \<or> fault env (length (trace w)) \<or>
    files env path = Absent \<or> files env path = Malformed \<or>
    (clear \<and> fault env (Suc (length (trace w)))) \<or>
    (\<exists>j. files env path = Content j \<and> \<not> is_list j \<and> \<not> (is_dict j \<and> py_in ''nodes'' j)) \<longrightarrow>
      fst (load_graph_to_neo4j env path ds clear w) = Inr None) \<and>
   (\<forall>ok self w1. connect env Neo4jLoader w = (ok, self, w1) \<longrightarrow>
      fst (load_graph_to_neo4j env path ds clear w) =
        Inr (if ok then (case fst (load_graph_from_json env self path ds clear w1) of
                           Inl e \<Rightarrow> None | Inr s \<Rightarrow> Some s)
             else None)) \<and>
   (\<forall>s. fst (load_graph_to_neo4j env path ds clear w) = Inr (Some s) \<longrightarrow>
      (format s = ''relationship_list'' \<or> format s = ''standard'') \<and>
      0 \<le> nodes_created s \<and> 0 \<le> relationships_created s)"
proof -
  obtain ok self w1 where c: "connect env Neo4jLoader w = (ok, self, w1)"
    by (cases "connect env Neo4jLoader w")
  note cr = connect_result [OF c]
  obtain r w2 where l: "load_graph_from_json env self path ds clear w1 = (r, w2)"
    by (cases "load_graph_from_json env self path ds clear w1")
  have res: "fst (load_graph_to_neo4j env path ds clear w) =
        Inr (if ok then (case r of Inl e \<Rightarrow> None | Inr s \<Rightarrow> Some s) else None)"
    by (cases r) (simp_all add: load_graph_to_neo4j_def c l is_Exception_all)
  have fatal: "fst (load_graph_to_neo4j env path ds clear w) = Inr None"
    if "\<not> driver_ok env \<or> fault env (length (trace w)) \<or>
        files env path = Absent \<or> files env path = Malformed \<or>
        (clear \<and> fault env (Suc (length (trace w)))) \<or>
        (\<exists>j. files env path = Content j \<and> \<not> is_list j \<and> \<not> (is_dict j \<and> py_in ''nodes'' j))"
  proof (cases ok)
    case False
    then show ?thesis by (simp add: res)
  next
    case True
    with cr have t: "length (trace w1) = Suc (length (trace w))" and "driver_ok env" "\<not> fault env (length (trace w))"
      by simp_all
    with that have "isl (fst (load_graph_from_json env self path ds clear w1))"
      by (intro load_graph_from_json_fatal) (simp add: t)
    then show ?thesis
      by (auto simp: res l isl_def)
  qed
  have good: "(format s = ''relationship_list'' \<or> format s = ''standard'') \<and>
      0 \<le> nodes_created s \<and> 0 \<le> relationships_created s"
    if "fst (load_graph_to_neo4j env path ds clear w) = Inr (Some s)" for s
  proof -
    from that have "fst (load_graph_from_json env self path ds clear w1) = Inr s"
      by (auto simp: res l split: if_splits sum.splits)
    then show ?thesis
      by (rule load_graph_from_json_stats)
  qed
  show ?thesis
    using res fatal good by (auto simp: c l)
qed

theorem public_function_never_raises_witness:
  "fst (load_graph_to_neo4j (reliable (\<lambda>p. Absent)) ''g.json'' ''demo'' True fresh_world) = Inr None \<and>
   fst (load_graph_to_neo4j (reliable (\<lambda>p. Content (JList [relationship ''A'' ''located_in'' ''B''])))
          ''g.json'' ''demo'' True fresh_world) =
     Inr (Some \<lparr>nodes_created = 2, relationships_created = 1, format = ''relationship_list''\<rparr>)"
proof -
  have "fst (load_graph_to_neo4j (reliable (\<lambda>p. Content (JList [relationship ''A'' ''located_in'' ''B''])))
          ''g.json'' ''demo'' True fresh_world) =
     Inr (Some \<lparr>nodes_created = 2, relationships_created = 1, format = ''relationship_list''\<rparr>)"
    by code_simp
  then show ?thesis
    using public_function_never_raises
      [of "reliable (\<lambda>p. Absent)" "''g.json''" "''demo''" True fresh_world]
    by (simp add: reliable_def)
qed

section \<open>Write failures\<close>

lemma session_run_trace_eq: "session_run env q w = (r, w') \<Longrightarrow> trace w' = trace w @ [q]"
  by (auto simp: session_run_def split: if_splits prod.splits)

lemma rel_loop_attempts:
  "rel_loop env ds xs c w = (r, w') \<Longrightarrow>
     trace w' = trace w @ fst (rel_attempts ds xs) \<and> isl r = snd (rel_attempts ds xs)"
proof (induction xs arbitrary: c w)
  case Nil
  then show ?case by auto
next
  case (Cons x xs)
  from Cons.prems show ?case
    by (auto split: if_splits sum.splits option.splits prod.splits
        dest!: Cons.IH session_run_trace_eq)
qed

lemma node_loop_attempts:
  "node_loop env ds xs c w = (r, w') \<Longrightarrow>
     trace w' = trace w @ fst (node_attempts ds xs) \<and> isl r = snd (node_attempts ds xs)"
proof (induction xs arbitrary: c w)
  case Nil
  then show ?case by auto
next
  case (Cons x xs)
  from Cons.prems show ?case
    by (auto split: if_splits sum.splits option.splits prod.splits
        dest!: Cons.IH session_run_trace_eq)
qed

lemma edge_loop_attempts:
  "edge_loop env ds xs c w = (r, w') \<Longrightarrow>
     trace w' = trace w @ fst (edge_attempts ds xs) \<and> isl r = snd (edge_attempts ds xs)"
proof (induction xs arbitrary: c w)
  case Nil
  then show ?case by auto
next
  case (Cons x xs)
  from Cons.prems show ?case
    by (auto split: if_splits sum.splits option.splits prod.splits
        dest!: Cons.IH session_run_trace_eq)
qed

lemma with_session_trace:
  "trace (snd (with_session body w)) = trace (snd (body (w\<lparr>sessions_open := Suc (sessions_open w)\<rparr>)))"
  by (simp add: with_session_def split: prod.splits)

lemma relationship_list_body_attempts:
  "trace (snd (relationship_list_body env ds xs w)) = trace w @ fst (rel_attempts ds xs) \<and>
   isl (fst (relationship_list_body env ds xs w)) = snd (rel_attempts ds xs)"
proof -
  obtain r w' where l: "rel_loop env ds xs (0, 0) w = (r, w')"
    by (cases "rel_loop env ds xs (0, 0) w")
  from rel_loop_attempts [OF l] show ?thesis
    by (cases r) (simp_all add: relationship_list_body_def l)
qed

lemma standard_body_attempts:
  "trace (snd (standard_body env ds ns es w)) =
     trace w @ fst (node_attempts ds ns) @ (if snd (node_attempts ds ns) then [] else fst (edge_attempts ds es)) \<and>
   isl (fst (standard_body env ds ns es w)) =
     (snd (node_attempts ds ns) \<or> snd (edge_attempts ds es))"
proof -
  obtain r w1 where n: "node_loop env ds ns 0 w = (r, w1)"
    by (cases "node_loop env ds ns 0 w")
  obtain r' w2 where e: "edge_loop env ds es 0 w1 = (r', w2)"
    by (cases "edge_loop env ds es 0 w1")
  from node_loop_attempts [OF n] edge_loop_attempts [OF e] show ?thesis
    by (cases r; cases r') (simp_all add: standard_body_def n e)
qed

lemma load_relationship_list_format_attempts:
  "trace (snd (load_relationship_list_format env self xs ds w)) =
     trace w @ (if driver self then fst (rel_attempts ds xs) else []) \<and>
   isl (fst (load_relationship_list_format env self xs ds w)) =
     (driver self \<longrightarrow> snd (rel_attempts ds xs))"
  by (simp add: load_relationship_list_format_def with_session_trace with_session_fst
      relationship_list_body_attempts)

lemma env_simps [simp]:
  "driver_ok (without_faults env) = driver_ok env"
  "files (without_faults env) = files env"
  "fault (without_faults env) i = False"
  by (simp_all add: without_faults_def)

lemma load_standard_format_faults:
  "trace (snd (load_standard_format env self gd ds w)) =
   trace (snd (load_standard_format env' self gd ds w)) \<and>
   isl (fst (load_standard_format env self gd ds w)) =
   isl (fst (load_standard_format env' self gd ds w))"
  by (simp add: load_standard_format_def with_session_trace with_session_fst
      standard_body_attempts split: sum.splits prod.splits)

lemma rel_record_Inr_is_dict: "rel_record ds item = Inr p \<Longrightarrow> is_dict item"
  by (cases item) (simp_all add: rel_record_def bind_err_def)

lemma session_run_fault:
  "fault env (length (trace w)) \<Longrightarrow>
     session_run env q w = (Inl Neo4jError, w\<lparr>trace := trace w @ [q]\<rparr>)"
  by (simp add: session_run_def)

text \<open>
  C7. In the three loops a record whose write raises is passed over: the loop goes on
  with the remaining records from the same counters and the same database, with the
  failed statement recorded as sent. Hence for both ingesters the statements that are
  sent, and whether the load ends with an exception at all, are the same under any
  pattern of write failures as with a server that never fails: no write failure aborts
  the load or keeps a later record from being attempted.
\<close>

theorem write_failure_skips_one_record:
  "(rel_record ds item = Inr (Some p) \<and> fault env (length (trace w)) \<longrightarrow>
      rel_loop env ds (item # items) c w =
      rel_loop env ds items c (w\<lparr>trace := trace w @ [MergeRelationship p]\<rparr>)) \<and>
   (node_record ds node = Inr (Some pn) \<and> fault env (length (trace w)) \<longrightarrow>
      node_loop env ds (node # nodes) k w =
      node_loop env ds nodes k (w\<lparr>trace := trace w @ [MergeNode pn]\<rparr>)) \<and>
   (edge_record ds edge = Inr (Some pe) \<and> fault env (length (trace w)) \<longrightarrow>
      edge_loop env ds (edge # edges) k w =
      edge_loop env ds edges k (w\<lparr>trace := trace w @ [MergeEdge pe]\<rparr>)) \<and>
   trace (snd (load_relationship_list_format env self xs ds w)) =
     trace (snd (load_relationship_list_format (without_faults env) self xs ds w)) \<and>
   isl (fst (load_relationship_list_format env self xs ds w)) =
     isl (fst (load_relationship_list_format (without_faults env) self xs ds w)) \<and>
   trace (snd (load_standard_format env self gd ds w)) =
     trace (snd (load_standard_format (without_faults env) self gd ds w)) \<and>
   isl (fst (load_standard_format env self gd ds w)) =
     isl (fst (load_standard_format (without_faults env) self gd ds w))"
proof (intro conjI impI)
  assume "rel_record ds item = Inr (Some p) \<and> fault env (length (trace w))"
  then have "rel_record ds item = Inr (Some p)" "fault env (length (trace w))" "is_dict item"
    by (simp_all add: rel_record_Inr_is_dict [of ds item "Some p"])
  then show "rel_loop env ds (item # items) c w =
      rel_loop env ds items c (w\<lparr>trace := trace w @ [MergeRelationship p]\<rparr>)"
    by (simp add: session_run_fault)
next
  assume "node_record ds node = Inr (Some pn) \<and> fault env (length (trace w))"
  then show "node_loop env ds (node # nodes) k w =
      node_loop env ds nodes k (w\<lparr>trace := trace w @ [MergeNode pn]\<rparr>)"
    by (simp add: session_run_fault)
next
  assume "edge_record ds edge = Inr (Some pe) \<and> fault env (length (trace w))"
  then show "edge_loop env ds (edge # edges) k w =
      edge_loop env ds edges k (w\<lparr>trace := trace w @ [MergeEdge pe]\<rparr>)"
    by (simp add: session_run_fault)
qed (simp_all add: load_relationship_list_format_attempts load_standard_format_faults [of env self gd ds w "without_faults env"])

theorem write_failure_skips_one_record_witness:
  "fault flaky (length (trace fresh_world)) \<and>
   rel_loop flaky ''demo'' [relationship ''A'' ''r'' ''B'', relationship ''C'' ''r'' ''D''] (0, 0) fresh_world =
     rel_loop flaky ''demo'' [relationship ''C'' ''r'' ''D''] (0, 0)
       (fresh_world\<lparr>trace := trace fresh_world @
          [MergeRelationship \<lparr>rw_start_name = JStr ''A'', rw_end_name = JStr ''B'',
             rw_dataset = ''demo'', rw_start_type = JStr ''entity'', rw_end_type = JStr ''entity'',
             rw_start_props = [(''name'', JStr ''A'')], rw_end_props = [(''name'', JStr ''B'')],
             rw_relation = JStr ''r''\<rparr>]\<rparr>) \<and>
   node_loop flaky ''demo'' [JDict [(''id'', JStr ''1'')], JDict [(''id'', JStr ''2'')]] 0 fresh_world =
     node_loop flaky ''demo'' [JDict [(''id'', JStr ''2'')]] 0
       (fresh_world\<lparr>trace := trace fresh_world @
          [MergeNode \<lparr>nw_id = JStr ''1'', nw_name = JStr ''1'', nw_type = JStr ''Entity'',
             nw_attributes = JList [], nw_dataset = ''demo''\<rparr>]\<rparr>) \<and>
   edge_loop flaky ''demo'' [JDict [(''source'', JStr ''1''), (''target'', JStr ''2'')]] 0 fresh_world =
     edge_loop flaky ''demo'' [] 0
       (fresh_world\<lparr>trace := trace fresh_world @
          [MergeEdge \<lparr>ew_source = JStr ''1'', ew_target = JStr ''2'', ew_relation = JStr ''RELATED_TO'',
             ew_weight = JNum 1, ew_dataset = ''demo''\<rparr>]\<rparr>)"
  using write_failure_skips_one_record
    [where env = flaky and ds = "''demo''" and w = fresh_world
       and item = "relationship ''A'' ''r'' ''B''" and items = "[relationship ''C'' ''r'' ''D'']"
       and c = "(0, 0)" and k = 0
       and p = "\<lparr>rw_start_name = JStr ''A'', rw_end_name = JStr ''B'',
             rw_dataset = ''demo'', rw_start_type = JStr ''entity'', rw_end_type = JStr ''entity'',
             rw_start_props = [(''name'', JStr ''A'')], rw_end_props = [(''name'', JStr ''B'')],
             rw_relation = JStr ''r''\<rparr>"
       and node = "JDict [(''id'', JStr ''1'')]" and nodes = "[JDict [(''id'', JStr ''2'')]]"
       and pn = "\<lparr>nw_id = JStr ''1'', nw_name = JStr ''1'', nw_type = JStr ''Entity'',
             nw_attributes = JList [], nw_dataset = ''demo''\<rparr>"
       and edge = "JDict [(''source'', JStr ''1''), (''target'', JStr ''2'')]" and edges = "[]"
       and pe = "\<lparr>ew_source = JStr ''1'', ew_target = JStr ''2'', ew_relation = JStr ''RELATED_TO'',
             ew_weight = JNum 1, ew_dataset = ''demo''\<rparr>"
       and self = connected and xs = "[]" and gd = "JDict []"]
  by (simp add: flaky_def fresh_world_def relationship_def endpoint_def rel_record_def
      node_record_def edge_record_def bind_err_def del: rel_loop.simps node_loop.simps edge_loop.simps)

section \<open>Nodes before edges\<close>

lemma node_attempts_all: "list_all is_node_write (fst (node_attempts ds xs))"
  by (induction xs) (auto split: sum.splits option.splits)

lemma edge_attempts_all: "list_all is_edge_write (fst (edge_attempts ds xs))"
  by (induction xs) (auto split: sum.splits option.splits)

lemma node_attempts_complete:
  "\<not> snd (node_attempts ds xs) \<Longrightarrow> x \<in> set xs \<Longrightarrow> node_record ds x = Inr (Some p) \<Longrightarrow>
     MergeNode p \<in> set (fst (node_attempts ds xs))"
  by (induction xs) (auto split: sum.splits option.splits)

lemma fold_merge_rel_edges:
  "g_nodes (fold (merge_rel rel ds) rows g) = g_nodes g \<and>
   (\<forall>e\<in>set (g_edges (fold (merge_rel rel ds) rows g)).
      e \<in> set (g_edges g) \<or> (esrc e, edst e) \<in> set rows)"
proof (induction rows arbitrary: g)
  case Nil
  show ?case by simp
next
  case (Cons r rows)
  have n: "g_nodes (merge_rel rel ds r g) = g_nodes g"
    by (simp add: merge_rel_def)
  have e: "e \<in> set (g_edges (merge_rel rel ds r g)) \<Longrightarrow>
             e \<in> set (g_edges g) \<or> (esrc e, edst e) = r" for e
    by (auto simp: merge_rel_def split: if_splits)
  show ?case
    using Cons.IH [of "merge_rel rel ds r g"] n e by (simp; blast)
qed

lemma has_key_in_dataset: "has_key k v ds n \<Longrightarrow> in_dataset ds n"
  by (simp add: has_key_def in_dataset_def)

lemma run_merge_edge_anchored:
  "g_nodes (run_merge_edge p g) = g_nodes g \<and>
   (\<forall>e\<in>set (g_edges (run_merge_edge p g)).
      e \<in> set (g_edges g) \<or> anchored (ew_dataset p) (g_nodes g) e)"
proof -
  let ?as = "map nid (filter (has_key ''id'' (ew_source p) (ew_dataset p)) (g_nodes g))"
  let ?bs = "map nid (filter (has_key ''id'' (ew_target p) (ew_dataset p)) (g_nodes g))"
  let ?rows = "List.product ?as ?bs"
  let ?g1 = "fold (merge_rel (ew_relation p) (ew_dataset p)) ?rows g"
  have row: "anchored (ew_dataset p) (g_nodes g) e" if "(esrc e, edst e) \<in> set ?rows" for e
    using that by (auto simp: anchored_def list_ex_iff dest: has_key_in_dataset)
  have g1: "e \<in> set (g_edges ?g1) \<Longrightarrow> e \<in> set (g_edges g) \<or> anchored (ew_dataset p) (g_nodes g) e" for e
    using fold_merge_rel_edges [of "ew_relation p" "ew_dataset p" ?rows g] row by blast
  have n1: "g_nodes ?g1 = g_nodes g"
    using fold_merge_rel_edges [of "ew_relation p" "ew_dataset p" ?rows g] by simp
  have upd: "anchored (ew_dataset p) (g_nodes g) (e\<lparr>eprops := ps\<rparr>)"
    if "list_ex (\<lambda>ab. rel_is (fst ab) (snd ab) (ew_relation p) (ew_dataset p) e) ?rows" for e ps
  proof -
    from that have "(esrc e, edst e) \<in> set ?rows"
      by (auto simp: list_ex_iff rel_is_def)
    then have "anchored (ew_dataset p) (g_nodes g) e"
      by (rule row)
    then show ?thesis
      by (simp add: anchored_def)
  qed
  show ?thesis
    unfolding run_merge_edge_def Let_def
    using g1 n1 upd by (auto simp: anchored_def)
qed

lemma session_run_merge_edge:
  "session_run env (MergeEdge p) v = (r, v') \<Longrightarrow>
     g_nodes (db v') = g_nodes (db v) \<and>
     (\<forall>e\<in>set (g_edges (db v')). e \<in> set (g_edges (db v)) \<or> anchored (ew_dataset p) (g_nodes (db v)) e)"
  using run_merge_edge_anchored [of p "db v"]
  by (auto simp: session_run_def split: if_splits)

lemma session_run_merge_node:
  "session_run env (MergeNode p) v = (r, v') \<Longrightarrow> g_edges (db v') = g_edges (db v)"
  by (auto simp: session_run_def run_merge_node_def Let_def split: if_splits)

lemma edge_record_dataset: "edge_record ds x = Inr (Some p) \<Longrightarrow> ew_dataset p = ds"
  by (cases x) (auto simp: edge_record_def bind_err_def split: if_splits)

lemma edge_loop_anchored:
  "edge_loop env ds xs c v = (r, v') \<Longrightarrow>
     g_nodes (db v') = g_nodes (db v) \<and>
     (\<forall>e\<in>set (g_edges (db v')). e \<in> set (g_edges (db v)) \<or> anchored ds (g_nodes (db v)) e)"
proof (induction xs arbitrary: c v)
  case Nil
  then show ?case by auto
next
  case (Cons x xs)
  show ?case
  proof (cases "edge_record ds x")
    case (Inl e)
    with Cons.prems show ?thesis by auto
  next
    case (Inr po)
    show ?thesis
    proof (cases po)
      case None
      with Inr Cons.prems have "edge_loop env ds xs c v = (r, v')"
        by simp
      then show ?thesis
        by (rule Cons.IH)
    next
      case (Some p)
      obtain r1 v1 where s: "session_run env (MergeEdge p) v = (r1, v1)"
        by (cases "session_run env (MergeEdge p) v")
      have d: "ew_dataset p = ds"
        using Inr Some by (simp add: edge_record_dataset)
      note step = session_run_merge_edge [OF s, unfolded d]
      from Cons.prems Inr Some s obtain c' where "edge_loop env ds xs c' v1 = (r, v')"
        by (cases r1) auto
      from Cons.IH [OF this] step show ?thesis
        by auto
    qed
  qed
qed

lemma node_loop_edges:
  "node_loop env ds xs c v = (r, v') \<Longrightarrow> g_edges (db v') = g_edges (db v)"
proof (induction xs arbitrary: c v)
  case Nil
  then show ?case by auto
next
  case (Cons x xs)
  from Cons.prems show ?case
    by (auto split: sum.splits option.splits prod.splits
        dest!: Cons.IH session_run_merge_node)
qed

lemma standard_body_anchored:
  assumes "standard_body env ds ns es v = (r, v')"
  shows "\<forall>e\<in>set (g_edges (db v')). e \<in> set (g_edges (db v)) \<or> anchored ds (g_nodes (db v')) e"
proof -
  obtain r1 v1 where n: "node_loop env ds ns 0 v = (r1, v1)"
    by (cases "node_loop env ds ns 0 v")
  note e1 = node_loop_edges [OF n]
  show ?thesis
  proof (cases r1)
    case (Inl e)
    with assms n e1 show ?thesis
      by (auto simp: standard_body_def)
  next
    case (Inr nc)
    obtain r2 v2 where e: "edge_loop env ds es 0 v1 = (r2, v2)"
      by (cases "edge_loop env ds es 0 v1")
    from assms n Inr e have "v' = v2"
      by (cases r2) (auto simp: standard_body_def)
    with edge_loop_anchored [OF e] e1 show ?thesis
      by auto
  qed
qed

lemma with_session_db:
  assumes "\<And>r v'. body (w\<lparr>sessions_open := Suc (sessions_open w)\<rparr>) = (r, v') \<Longrightarrow> P (db v')"
  shows "P (db (snd (with_session body w)))"
proof -
  obtain r v' where b: "body (w\<lparr>sessions_open := Suc (sessions_open w)\<rparr>) = (r, v')"
    by (cases "body (w\<lparr>sessions_open := Suc (sessions_open w)\<rparr>)")
  from assms [OF b] show ?thesis
    by (simp add: with_session_def b)
qed

lemma load_standard_format_anchored:
  "\<forall>e\<in>set (g_edges (db (snd (load_standard_format env self gd ds w)))).
     e \<in> set (g_edges (db w)) \<or>
     anchored ds (g_nodes (db (snd (load_standard_format env self gd ds w)))) e"
proof -
  have b: "\<forall>e\<in>set (g_edges (db (snd (with_session (standard_body env ds ns es) w)))).
     e \<in> set (g_edges (db w)) \<or>
     anchored ds (g_nodes (db (snd (with_session (standard_body env ds ns es) w)))) e" for ns es
    by (rule with_session_db [where P = "\<lambda>g. \<forall>e\<in>set (g_edges g). e \<in> set (g_edges (db w)) \<or> anchored ds (g_nodes g) e"])
       (use standard_body_anchored in fastforce)
  show ?thesis
    by (simp add: load_standard_format_def b split: sum.splits prod.splits)
qed

lemma load_standard_format_trace:
  "trace (snd (load_standard_format env self gd ds w)) =
     trace w @
     (case bind_err (py_get gd ''nodes'' (JList [])) (\<lambda>nodes.
           bind_err (py_get gd ''edges'' (JList [])) (\<lambda>edges.
           bind_err (py_len nodes) (\<lambda>n_nodes.
           bind_err (py_len edges) (\<lambda>n_edges. Inr (nodes, edges))))) of
        Inl e \<Rightarrow> []
      | Inr (nodes, edges) \<Rightarrow>
          if \<not> driver self then []
          else fst (node_attempts ds (py_iter nodes)) @
               (if snd (node_attempts ds (py_iter nodes)) then []
                else fst (edge_attempts ds (py_iter edges))))"
  by (simp add: load_standard_format_def with_session_trace standard_body_attempts
      split: sum.splits prod.splits)

text \<open>
  C5. In standard-format loading the statements sent are node writes followed by edge
  writes, and once an edge write is sent a write has been sent for every node record of
  \<^verbatim>\<open>nodes[]\<close> that passes the checks, whatever the order of the ids. An edge write
  leaves the nodes as they are, and every edge it leaves in the database was there
  before or joins two nodes that were stored with the dataset tag when it was written.
  So every edge in the database after the load was there before the load or joins two
  stored nodes of the dataset.
\<close>

theorem nodes_written_before_edges:
  "(\<exists>ns es. trace (snd (load_standard_format env self gd ds w)) = trace w @ ns @ es \<and>
      list_all is_node_write ns \<and> list_all is_edge_write es \<and>
      (es \<noteq> [] \<longrightarrow>
        (\<forall>nodes. py_get gd ''nodes'' (JList []) = Inr nodes \<longrightarrow>
          (\<forall>x\<in>set (py_iter nodes). \<forall>p. node_record ds x = Inr (Some p) \<longrightarrow>
             MergeNode p \<in> set ns)))) \<and>
   (\<forall>e\<in>set (g_edges (db (snd (load_standard_format env self gd ds w)))).
      e \<in> set (g_edges (db w)) \<or>
      anchored ds (g_nodes (db (snd (load_standard_format env self gd ds w)))) e) \<and>
   (\<forall>p v r v'. session_run env (MergeEdge p) v = (r, v') \<longrightarrow>
      g_nodes (db v') = g_nodes (db v) \<and>
      (\<forall>e\<in>set (g_edges (db v')).
         e \<in> set (g_edges (db v)) \<or> anchored (ew_dataset p) (g_nodes (db v)) e))"
proof (intro conjI)
  let ?pre = "bind_err (py_get gd ''nodes'' (JList [])) (\<lambda>nodes.
           bind_err (py_get gd ''edges'' (JList [])) (\<lambda>edges.
           bind_err (py_len nodes) (\<lambda>n_nodes.
           bind_err (py_len edges) (\<lambda>n_edges. Inr (nodes, edges)))))"
  show "\<exists>ns es. trace (snd (load_standard_format env self gd ds w)) = trace w @ ns @ es \<and>
      list_all is_node_write ns \<and> list_all is_edge_write es \<and>
      (es \<noteq> [] \<longrightarrow>
        (\<forall>nodes. py_get gd ''nodes'' (JList []) = Inr nodes \<longrightarrow>
          (\<forall>x\<in>set (py_iter nodes). \<forall>p. node_record ds x = Inr (Some p) \<longrightarrow>
             MergeNode p \<in> set ns)))"
  proof (cases ?pre)
    case (Inl e)
    then have "trace (snd (load_standard_format env self gd ds w)) = trace w @ [] @ []"
      by (simp add: load_standard_format_trace)
    then show ?thesis
      by (intro exI [of _ "[]"] conjI) simp_all
  next
    case (Inr ne)
    obtain nodes edges where ne: "ne = (nodes, edges)"
      by (cases ne)
    from Inr ne have g: "py_get gd ''nodes'' (JList []) = Inr nodes"
      by (auto simp: bind_err_def split: sum.splits)
    let ?ns = "if driver self then fst (node_attempts ds (py_iter nodes)) else []"
    let ?es = "if driver self \<and> \<not> snd (node_attempts ds (py_iter nodes))
               then fst (edge_attempts ds (py_iter edges)) else []"
    have t: "trace (snd (load_standard_format env self gd ds w)) = trace w @ ?ns @ ?es"
      by (simp add: load_standard_format_trace Inr ne)
    have a: "list_all is_node_write ?ns" "list_all is_edge_write ?es"
      by (simp_all add: node_attempts_all edge_attempts_all)
    have c: "MergeNode p \<in> set ?ns"
      if "?es \<noteq> []" "py_get gd ''nodes'' (JList []) = Inr nodes'" "x \<in> set (py_iter nodes')"
         "node_record ds x = Inr (Some p)" for nodes' x p
    proof -
      from that(2) g have "nodes' = nodes" by simp
      with that show ?thesis
        by (auto split: if_splits intro: node_attempts_complete)
    qed
    show ?thesis
      apply (rule exI [of _ ?ns])
      apply (rule exI [of _ ?es])
      using t a c by blast
  qed
next
  show "\<forall>e\<in>set (g_edges (db (snd (load_standard_format env self gd ds w)))).
      e \<in> set (g_edges (db w)) \<or>
      anchored ds (g_nodes (db (snd (load_standard_format env self gd ds w)))) e"
    by (rule load_standard_format_anchored)
next
  show "\<forall>p v r v'. session_run env (MergeEdge p) v = (r, v') \<longrightarrow>
      g_nodes (db v') = g_nodes (db v) \<and>
      (\<forall>e\<in>set (g_edges (db v')).
         e \<in> set (g_edges (db v)) \<or> anchored (ew_dataset p) (g_nodes (db v)) e)"
    using session_run_merge_edge by blast
qed

theorem nodes_written_before_edges_witness:
  "trace (snd (load_standard_format (reliable (\<lambda>p. Absent)) connected alice_bob ''demo2'' fresh_world)) =
     [MergeNode \<lparr>nw_id = JStr ''1'', nw_name = JStr ''Alice'', nw_type = JStr ''person'',
                  nw_attributes = JList [], nw_dataset = ''demo2''\<rparr>,
      MergeNode \<lparr>nw_id = JStr ''2'', nw_name = JStr ''Bob'', nw_type = JStr ''person'',
                  nw_attributes = JList [], nw_dataset = ''demo2''\<rparr>,
      MergeEdge \<lparr>ew_source = JStr ''1'', ew_target = JStr ''2'', ew_relation = JStr ''knows'',
                  ew_weight = JNum 2, ew_dataset = ''demo2''\<rparr>] \<and>
   length (g_edges (db (snd (load_standard_format (reliable (\<lambda>p. Absent)) connected alice_bob ''demo2'' fresh_world)))) = 1 \<and>
   list_all (anchored ''demo2''
       (g_nodes (db (snd (load_standard_format (reliable (\<lambda>p. Absent)) connected alice_bob ''demo2'' fresh_world)))))
     (g_edges (db (snd (load_standard_format (reliable (\<lambda>p. Absent)) connected alice_bob ''demo2'' fresh_world))))"
proof -
  have t: "trace (snd (load_standard_format (reliable (\<lambda>p. Absent)) connected alice_bob ''demo2'' fresh_world)) =
     [MergeNode \<lparr>nw_id = JStr ''1'', nw_name = JStr ''Alice'', nw_type = JStr ''person'',
                  nw_attributes = JList [], nw_dataset = ''demo2''\<rparr>,
      MergeNode \<lparr>nw_id = JStr ''2'', nw_name = JStr ''Bob'', nw_type = JStr ''person'',
                  nw_attributes = JList [], nw_dataset = ''demo2''\<rparr>,
      MergeEdge \<lparr>ew_source = JStr ''1'', ew_target = JStr ''2'', ew_relation = JStr ''knows'',
                  ew_weight = JNum 2, ew_dataset = ''demo2''\<rparr>]"
    "length (g_edges (db (snd (load_standard_format (reliable (\<lambda>p. Absent)) connected alice_bob ''demo2'' fresh_world)))) = 1"
    "g_edges (db fresh_world) = []"
    by code_simp+
  note a = nodes_written_before_edges
    [of "reliable (\<lambda>p. Absent)" connected alice_bob "''demo2''" fresh_world, THEN conjunct2, THEN conjunct1]
  show ?thesis
    using a t by (simp add: list_all_iff)
qed

section \<open>An edge whose endpoint is missing\<close>

text \<open>
  C1. On the input of the scenario the edge to the missing node \<open>99\<close> is not created
  and nothing is raised, but the loader counts it: it returns
  \<open>nodes_created = 1\<close> and \<open>relationships_created = 1\<close>, where the claim has
  \<open>relationships_created = 0\<close>. The counter goes up after every edge statement that
  does not raise, whether or not the statement matched anything.
\<close>

theorem missing_endpoint_edge_counted:
  "fst (load_graph_to_neo4j (reliable (\<lambda>p. Content dangling_doc)) ''g.json'' ''demo'' True fresh_world) =
     Inr (Some \<lparr>nodes_created = 1, relationships_created = 1, format = ''standard''\<rparr>) \<and>
   g_edges (db (snd (load_graph_to_neo4j (reliable (\<lambda>p. Content dangling_doc)) ''g.json'' ''demo'' True fresh_world))) = []"
  by code_simp

theorem missing_endpoint_edge_counted_witness:
  "fst (load_graph_to_neo4j (reliable (\<lambda>p. Content dangling_doc)) ''g.json'' ''demo'' True fresh_world) \<noteq>
     Inr (Some \<lparr>nodes_created = 1, relationships_created = 0, format = ''standard''\<rparr>)"
  using missing_endpoint_edge_counted by simp

section \<open>Unknown format\<close>

text \<open>
  C2, as stated, fails: with \<open>clear_existing\<close> set, the top-level value \<open>42\<close> makes the
  load fail with the unknown-format error only after the clear statement has been sent
  and has emptied the dataset.
\<close>

theorem unknown_format_clears_first_counterexample:
  "fst (load_graph_from_json (reliable (\<lambda>p. Content (JNum 42))) connected ''g.json'' ''demo'' True stocked_world) =
     Inl ValueError \<and>
   trace (snd (load_graph_from_json (reliable (\<lambda>p. Content (JNum 42))) connected ''g.json'' ''demo'' True stocked_world)) =
     [ClearDataset ''demo''] \<and>
   length (g_nodes (db stocked_world)) = 1 \<and>
   g_nodes (db (snd (load_graph_from_json (reliable (\<lambda>p. Content (JNum 42))) connected ''g.json'' ''demo'' True stocked_world))) = []"
  by code_simp

lemma with_session_clear_body:
  "with_session (clear_body env ds) w =
     (if fault env (length (trace w)) then (Inl Neo4jError, w\<lparr>trace := trace w @ [ClearDataset ds]\<rparr>)
      else (Inr (), w\<lparr>db := detach_delete ds (db w), trace := trace w @ [ClearDataset ds]\<rparr>))"
  by (simp add: with_session_def clear_body_def session_run_def)

text \<open>
  C2, amended. When the top-level value is neither a sequence nor a mapping with a
  \<open>nodes\<close> key, the load fails without stats and without any write of a record.
  The format is looked at after the optional clear: without \<open>clear_existing\<close> nothing
  is sent and the failure is the unknown-format error; with it the clear statement is
  sent first, and the failure is the unknown-format error on the cleared dataset, or
  the error of the clear when the clear raised.
\<close>

theorem unknown_format_after_clear:
  assumes "driver self" and "files env path = Content j"
    and "\<not> is_list j" and "\<not> (is_dict j \<and> py_in ''nodes'' j)"
  shows "load_graph_from_json env self path ds clear w =
     (if clear then
        (if fault env (length (trace w))
         then (Inl Neo4jError, w\<lparr>trace := trace w @ [ClearDataset ds]\<rparr>)
         else (Inl ValueError, w\<lparr>db := detach_delete ds (db w), trace := trace w @ [ClearDataset ds]\<rparr>))
      else (Inl ValueError, w))"
proof -
  from assms(3,4) have d: "(is_dict j \<and> py_in ''nodes'' j) = False" "is_list j = False"
    by auto
  show ?thesis
    using assms(1,2)
    by (simp add: load_graph_from_json_def clear_graph_def with_session_clear_body d)
qed

theorem unknown_format_after_clear_witness:
  "load_graph_from_json (reliable (\<lambda>p. Content (JNum 42))) connected ''g.json'' ''demo'' False stocked_world =
     (Inl ValueError, stocked_world) \<and>
   load_graph_from_json (reliable (\<lambda>p. Content (JNum 42))) connected ''g.json'' ''demo'' True stocked_world =
     (Inl ValueError, stocked_world\<lparr>db := detach_delete ''demo'' (db stocked_world),
                                     trace := trace stocked_world @ [ClearDataset ''demo'']\<rparr>)"
  using unknown_format_after_clear [of connected "reliable (\<lambda>p. Content (JNum 42))" "''g.json''" "JNum 42" "''demo''" False stocked_world]
    unknown_format_after_clear [of connected "reliable (\<lambda>p. Content (JNum 42))" "''g.json''" "JNum 42" "''demo''" True stocked_world]
  by (simp add: reliable_def connected_def)

section \<open>Clearing a dataset\<close>

text \<open>
  C4, as stated, fails: clearing dataset A deletes the nodes tagged A together with the
  relationships attached to them, so a relationship tagged B that is attached to a node
  tagged A is deleted too.
\<close>

theorem clear_removes_attached_edges_counterexample:
  "fst (clear_graph (reliable (\<lambda>p. Absent)) connected ''A'' crossed_world) = Inr () \<and>
   filter (edge_in_dataset ''B'') (g_edges (db crossed_world)) =
     [\<lparr>esrc = 1, edst = 2, etype = ''RELATES'',
       eprops = [(''type'', JStr ''r''), (''dataset'', JStr ''B'')]\<rparr>] \<and>
   filter (edge_in_dataset ''B'') (g_edges (db (snd (clear_graph (reliable (\<lambda>p. Absent)) connected ''A'' crossed_world)))) = []"
  by code_simp

lemma detach_delete_nodes:
  "g_nodes (detach_delete a g) = filter (\<lambda>n. \<not> in_dataset a n) (g_nodes g)"
  by (simp add: detach_delete_def Let_def)

lemma detach_delete_edges:
  "g_edges (detach_delete a g) = filter (\<lambda>e. \<not> touches a g e) (g_edges g)"
proof -
  have "(esrc e \<notin> set (map nid (filter (in_dataset a) (g_nodes g))) \<and>
         edst e \<notin> set (map nid (filter (in_dataset a) (g_nodes g)))) = (\<not> touches a g e)" for e
    by (auto simp: touches_def list_ex_iff image_iff)
  then show ?thesis
    by (simp add: detach_delete_def Let_def)
qed

lemma in_dataset_distinct: "a \<noteq> b \<Longrightarrow> in_dataset b n \<Longrightarrow> \<not> in_dataset a n"
  by (auto simp: in_dataset_def)

text \<open>
  C4, amended. A successful clear of dataset A leaves exactly the nodes that are not
  tagged A and exactly the relationships that are not attached to a node tagged A. For
  any other dataset B the nodes tagged B are unchanged, whatever their names or ids, and
  the relationships tagged B are unchanged provided none of them is attached to a node
  tagged A.
\<close>

theorem clear_graph_frame:
  assumes "driver self" and "\<not> fault env (length (trace w))"
  shows "fst (clear_graph env self a w) = Inr () \<and>
     g_nodes (db (snd (clear_graph env self a w))) = filter (\<lambda>n. \<not> in_dataset a n) (g_nodes (db w)) \<and>
     g_edges (db (snd (clear_graph env self a w))) = filter (\<lambda>e. \<not> touches a (db w) e) (g_edges (db w)) \<and>
     (a \<noteq> b \<longrightarrow>
        filter (in_dataset b) (g_nodes (db (snd (clear_graph env self a w)))) =
        filter (in_dataset b) (g_nodes (db w))) \<and>
     (list_all (\<lambda>e. edge_in_dataset b e \<longrightarrow> \<not> touches a (db w) e) (g_edges (db w)) \<longrightarrow>
        filter (edge_in_dataset b) (g_edges (db (snd (clear_graph env self a w)))) =
        filter (edge_in_dataset b) (g_edges (db w)))"
proof -
  have c: "clear_graph env self a w =
      (Inr (), w\<lparr>db := detach_delete a (db w), trace := trace w @ [ClearDataset a]\<rparr>)"
    using assms by (simp add: clear_graph_def with_session_clear_body)
  have n: "filter (in_dataset b) (filter (\<lambda>n. \<not> in_dataset a n) ns) = filter (in_dataset b) ns"
    if "a \<noteq> b" for ns
    using that by (auto simp: in_dataset_distinct intro!: filter_cong)
  have e: "filter (edge_in_dataset b) (filter (\<lambda>e. \<not> touches a (db w) e) es) = filter (edge_in_dataset b) es"
    if "list_all (\<lambda>e. edge_in_dataset b e \<longrightarrow> \<not> touches a (db w) e) es" for es
    using that by (auto simp: list_all_iff intro!: filter_cong)
  show ?thesis
    by (simp add: c detach_delete_nodes detach_delete_edges n e del: filter_filter)
qed

theorem clear_graph_frame_witness:
  "filter (in_dataset ''B'') (g_nodes (db (snd (clear_graph (reliable (\<lambda>p. Absent)) connected ''A'' stocked_pair)))) =
     filter (in_dataset ''B'') (g_nodes (db stocked_pair)) \<and>
   filter (edge_in_dataset ''B'') (g_edges (db (snd (clear_graph (reliable (\<lambda>p. Absent)) connected ''A'' stocked_pair)))) =
     filter (edge_in_dataset ''B'') (g_edges (db stocked_pair)) \<and>
   length (g_nodes (db (snd (clear_graph (reliable (\<lambda>p. Absent)) connected ''A'' stocked_pair)))) = 2 \<and>
   length (g_edges (db (snd (clear_graph (reliable (\<lambda>p. Absent)) connected ''A'' stocked_pair)))) = 1"
proof -
  have h: "driver connected" "\<not> fault (reliable (\<lambda>p. Absent)) (length (trace stocked_pair))"
    "''A'' \<noteq> ''B''"
    "list_all (\<lambda>e. edge_in_dataset ''B'' e \<longrightarrow> \<not> touches ''A'' (db stocked_pair) e) (g_edges (db stocked_pair))"
    by code_simp+
  have n: "length (filter (\<lambda>n. \<not> in_dataset ''A'' n) (g_nodes (db stocked_pair))) = 2"
    "length (filter (\<lambda>e. \<not> touches ''A'' (db stocked_pair) e) (g_edges (db stocked_pair))) = 1"
    by code_simp+
  note f = clear_graph_frame [OF h(1,2), of "''A''" "''B''"]
  from f h(3) have 1: "filter (in_dataset ''B'') (g_nodes (db (snd (clear_graph (reliable (\<lambda>p. Absent)) connected ''A'' stocked_pair)))) =
     filter (in_dataset ''B'') (g_nodes (db stocked_pair))"
    by blast
  from f h(4) have 2: "filter (edge_in_dataset ''B'') (g_edges (db (snd (clear_graph (reliable (\<lambda>p. Absent)) connected ''A'' stocked_pair)))) =
     filter (edge_in_dataset ''B'') (g_edges (db stocked_pair))"
    by blast
  from f have 3: "g_nodes (db (snd (clear_graph (reliable (\<lambda>p. Absent)) connected ''A'' stocked_pair))) =
      filter (\<lambda>n. \<not> in_dataset ''A'' n) (g_nodes (db stocked_pair))"
    and 4: "g_edges (db (snd (clear_graph (reliable (\<lambda>p. Absent)) connected ''A'' stocked_pair))) =
      filter (\<lambda>e. \<not> touches ''A'' (db stocked_pair) e) (g_edges (db stocked_pair))"
    by blast+
  show ?thesis
    using 1 2 n by (simp only: 3 4)
qed

section \<open>Loading twice\<close>

text \<open>
  C3, as stated, fails: the property map of an endpoint is applied to the node with
  \<^verbatim>\<open>+=\<close> after the merge, so a \<open>dataset\<close> entry in it moves the node out of the
  dataset being loaded. The second load finds no such node, creates another one and
  another relationship: three nodes and two edges after two loads, two nodes and one edge
  after one. A write failure separates the two loads as well: when the only write of the
  first load is rejected and that of the second is accepted, one load stores nothing and
  two loads store two nodes.
\<close>

theorem reload_duplicates_counterexample:
  "length (g_nodes (db (snd (load_graph_from_json (reliable (\<lambda>p. Content retagging))
      connected ''g.json'' ''demo'' False fresh_world)))) = 2 \<and>
   length (g_edges (db (snd (load_graph_from_json (reliable (\<lambda>p. Content retagging))
      connected ''g.json'' ''demo'' False fresh_world)))) = 1 \<and>
   length (g_nodes (db (snd (load_graph_from_json (reliable (\<lambda>p. Content retagging))
      connected ''g.json'' ''demo'' False
      (snd (load_graph_from_json (reliable (\<lambda>p. Content retagging))
         connected ''g.json'' ''demo'' False fresh_world)))))) = 3 \<and>
   length (g_edges (db (snd (load_graph_from_json (reliable (\<lambda>p. Content retagging))
      connected ''g.json'' ''demo'' False
      (snd (load_graph_from_json (reliable (\<lambda>p. Content retagging))
         connected ''g.json'' ''demo'' False fresh_world)))))) = 2 \<and>
   g_nodes (db (snd (load_relationship_list_format flaky connected
      [relationship ''A'' ''r'' ''B''] ''demo'' fresh_world))) = [] \<and>
   length (g_nodes (db (snd (load_relationship_list_format flaky connected
      [relationship ''A'' ''r'' ''B''] ''demo''
      (snd (load_relationship_list_format flaky connected
         [relationship ''A'' ''r'' ''B''] ''demo'' fresh_world)))))) = 2"
  by code_simp

lemma map_of_set_prop:
  "map_of (set_prop k v ps) k' =
     (if k' = k then (if v = JNull then None else Some v) else map_of ps k')"
  by (simp add: set_prop_def update_conv' delete_conv')

lemma map_of_add_props:
  "map_of (add_props m ps) k =
     (case map_of m k of None \<Rightarrow> map_of ps k | Some v \<Rightarrow> if v = JNull then None else Some v)"
proof (induction m)
  case Nil
  show ?case by (simp add: add_props_def)
next
  case (Cons kv m)
  have "add_props (kv # m) ps = set_prop (fst kv) (snd kv) (add_props m ps)"
    by (simp add: add_props_def)
  then show ?case
    using Cons.IH by (cases kv) (simp add: map_of_set_prop)
qed

lemma tame_add_props:
  assumes "tame name ds ps" and "map_of old ''name'' = Some name"
    and "map_of old ''dataset'' = Some (JStr ds)"
  shows "map_of (add_props ps old) ''name'' = Some name"
    and "map_of (add_props ps old) ''dataset'' = Some (JStr ds)"
  using assms by (auto simp: tame_def map_of_add_props)

lemma has_key_update:
  assumes "tame name ds ps" and "has_key ''name'' name ds n"
  shows "has_key ''name'' v d (n\<lparr>nprops := add_props ps (nprops n)\<rparr>) = has_key ''name'' v d n"
proof -
  from assms(2) have o: "map_of (nprops n) ''name'' = Some name"
    "map_of (nprops n) ''dataset'' = Some (JStr ds)"
    by (simp_all add: has_key_def)
  show ?thesis
    by (simp add: has_key_def tame_add_props [OF assms(1) o] o)
qed

lemma has_key_created:
  assumes "tame name ds ps"
  shows "has_key ''name'' v d \<lparr>nid = i, labels = [''Entity''],
           nprops = add_props ps (set_prop ''type'' ty [(''name'', name), (''dataset'', JStr ds)])\<rparr>
         = (v = name \<and> d = ds)"
proof -
  have o: "map_of (set_prop ''type'' ty [(''name'', name), (''dataset'', JStr ds)]) ''name'' = Some name"
    "map_of (set_prop ''type'' ty [(''name'', name), (''dataset'', JStr ds)]) ''dataset'' = Some (JStr ds)"
    by (simp_all add: map_of_set_prop)
  show ?thesis
    by (auto simp: has_key_def tame_add_props [OF assms o])
qed

lemma merge_entity_match:
  assumes "tame name ds ps" and "matches name ds g \<noteq> []"
    and "merge_entity name ds ty ps g = (g', rows)"
  shows "rows = matches name ds g'" and "g_edges g' = g_edges g"
    and "matches v d g' = matches v d g"
    and "length (g_nodes g') = length (g_nodes g)"
proof -
  let ?u = "\<lambda>n. if has_key ''name'' name ds n then n\<lparr>nprops := add_props ps (nprops n)\<rparr> else n"
  from assms(2) have ne: "filter (has_key ''name'' name ds) (g_nodes g) \<noteq> []"
    by (simp add: matches_def)
  from assms(3) ne have g': "g' = g\<lparr>g_nodes := map ?u (g_nodes g)\<rparr>"
    and rows: "rows = matches name ds g"
    by (simp_all add: merge_entity_def matches_def)
  have u: "has_key ''name'' v d (?u n) = has_key ''name'' v d n" "nid (?u n) = nid n" for v d n
    by (simp_all add: has_key_update [OF assms(1)])
  have m: "matches v d g' = matches v d g" for v d
    unfolding matches_def g'
    by (simp add: filter_map o_def u cong: if_cong)
  show "matches v d g' = matches v d g" by (rule m)
  show "rows = matches name ds g'" by (simp add: rows m)
  show "g_edges g' = g_edges g" by (simp add: g')
  show "length (g_nodes g') = length (g_nodes g)" by (simp add: g')
qed

lemma merge_entity_create:
  assumes "tame name ds ps" and "matches name ds g = []"
    and "merge_entity name ds ty ps g = (g', rows)"
  shows "rows = matches name ds g'" and "g_edges g' = g_edges g"
    and "matches v d g' = matches v d g @ (if v = name \<and> d = ds then [fresh_id g] else [])"
    and "rows \<noteq> []"
proof -
  let ?n = "\<lparr>nid = fresh_id g, labels = [''Entity''],
             nprops = add_props ps (set_prop ''type'' ty [(''name'', name), (''dataset'', JStr ds)])\<rparr>"
  from assms(2) have e: "filter (has_key ''name'' name ds) (g_nodes g) = []"
    by (simp add: matches_def)
  from assms(3) e have g': "g' = g\<lparr>g_nodes := g_nodes g @ [?n]\<rparr>" and rows: "rows = [fresh_id g]"
    by (auto simp: merge_entity_def Let_def)
  show m: "matches v d g' = matches v d g @ (if v = name \<and> d = ds then [fresh_id g] else [])" for v d
    by (simp add: matches_def g' has_key_created [OF assms(1)])
  show "rows = matches name ds g'"
    using m [of name ds] assms(2) by (simp add: rows)
  show "g_edges g' = g_edges g" by (simp add: g')
  show "rows \<noteq> []" by (simp add: rows)
qed

lemma merge_entity_general:
  assumes "tame name ds ps" and "merge_entity name ds ty ps g = (g', rows)"
  shows "rows = matches name ds g'" and "rows \<noteq> []" and "g_edges g' = g_edges g"
    and "matches v d g \<noteq> [] \<Longrightarrow> matches v d g' = matches v d g"
    and "matches name ds g \<noteq> [] \<Longrightarrow> length (g_nodes g') = length (g_nodes g)"
proof -
  show "rows = matches name ds g'"
    using merge_entity_match(1) [OF assms(1) _ assms(2)] merge_entity_create(1) [OF assms(1) _ assms(2)]
    by (cases "matches name ds g = []") simp_all
  show "g_edges g' = g_edges g"
    using merge_entity_match(2) [OF assms(1) _ assms(2)] merge_entity_create(2) [OF assms(1) _ assms(2)]
    by (cases "matches name ds g = []") simp_all
  show "rows \<noteq> []"
    using merge_entity_match(1) [OF assms(1) _ assms(2)]
      merge_entity_match(3) [OF assms(1) _ assms(2), of name ds]
      merge_entity_create(4) [OF assms(1) _ assms(2)]
    by (cases "matches name ds g = []") simp_all
  show "matches v d g' = matches v d g" if "matches v d g \<noteq> []"
  proof (cases "matches name ds g = []")
    case True
    with that have "\<not> (v = name \<and> d = ds)" by auto
    with merge_entity_create(3) [OF assms(1) True assms(2), of v d] show ?thesis by simp
  next
    case False
    then show ?thesis
      by (rule merge_entity_match(3) [OF assms(1) _ assms(2)])
  qed
  show "length (g_nodes g') = length (g_nodes g)" if "matches name ds g \<noteq> []"
    using that by (rule merge_entity_match(4) [OF assms(1) _ assms(2)])
qed

lemma merge_end_rows_general:
  assumes "tame name ds ps" and "merge_end_rows as name ds ty ps g = (g', rows)"
  shows "g_edges g' = g_edges g \<and>
         (\<forall>v d. matches v d g \<noteq> [] \<longrightarrow> matches v d g' = matches v d g) \<and>
         (matches name ds g \<noteq> [] \<longrightarrow> length (g_nodes g') = length (g_nodes g)) \<and>
         (as \<noteq> [] \<longrightarrow> matches name ds g' \<noteq> [] \<and> set rows = set as \<times> set (matches name ds g'))"
  using assms(2)
proof (induction as arbitrary: g g' rows)
  case Nil
  then show ?case by simp
next
  case (Cons a as)
  obtain g1 bs where m: "merge_entity name ds ty ps g = (g1, bs)"
    by (cases "merge_entity name ds ty ps g")
  obtain g2 rs where r: "merge_end_rows as name ds ty ps g1 = (g2, rs)"
    by (cases "merge_end_rows as name ds ty ps g1")
  from Cons.prems m r have g': "g' = g2" and rows: "rows = map (Pair a) bs @ rs"
    by simp_all
  note me = merge_entity_general [OF assms(1) m]
  note ih = Cons.IH [OF r]
  have bs: "bs = matches name ds g1" "matches name ds g1 \<noteq> []"
    using me(1,2) by simp_all
  have keep: "matches name ds g2 = matches name ds g1"
    using ih bs(2) by blast
  have rs: "set rs = set as \<times> set (matches name ds g2)"
  proof (cases as)
    case Nil
    with r show ?thesis by simp
  next
    case (Cons a' as')
    with ih show ?thesis by simp
  qed
  have 1: "g_edges g' = g_edges g"
    using ih me(3) by (simp add: g')
  have 2: "matches v d g' = matches v d g" if "matches v d g \<noteq> []" for v d
  proof -
    from that have "matches v d g1 = matches v d g" by (rule me(4))
    with that ih show ?thesis by (simp add: g')
  qed
  have 3: "length (g_nodes g') = length (g_nodes g)" if "matches name ds g \<noteq> []"
    using me(5) [OF that] ih bs(2) by (simp add: g')
  have 4: "matches name ds g' \<noteq> [] \<and> set rows = set (a # as) \<times> set (matches name ds g')"
    using bs keep rs by (auto simp: g' rows)
  show ?case
    using 1 2 3 4 by blast
qed

lemma matches_nodes_cong: "g_nodes g' = g_nodes g \<Longrightarrow> matches v d g' = matches v d g"
  by (simp add: matches_def)

lemma fold_merge_rel_general:
  "g_nodes (fold (merge_rel rel ds) rows g) = g_nodes g \<and>
   set (g_edges g) \<subseteq> set (g_edges (fold (merge_rel rel ds) rows g)) \<and>
   (\<forall>r\<in>set rows. \<exists>e\<in>set (g_edges (fold (merge_rel rel ds) rows g)). rel_is (fst r) (snd r) rel ds e) \<and>
   ((\<forall>r\<in>set rows. \<exists>e\<in>set (g_edges g). rel_is (fst r) (snd r) rel ds e) \<longrightarrow>
      fold (merge_rel rel ds) rows g = g)"
proof (induction rows arbitrary: g)
  case Nil
  show ?case by simp
next
  case (Cons r rows)
  let ?g = "merge_rel rel ds r g"
  have n: "g_nodes ?g = g_nodes g"
    by (simp add: merge_rel_def)
  have s: "set (g_edges g) \<subseteq> set (g_edges ?g)"
    by (auto simp: merge_rel_def)
  have h: "\<exists>e\<in>set (g_edges ?g). rel_is (fst r) (snd r) rel ds e"
    by (auto simp: merge_rel_def list_ex_iff rel_is_def)
  have i: "?g = g" if "\<exists>e\<in>set (g_edges g). rel_is (fst r) (snd r) rel ds e"
    using that by (simp add: merge_rel_def list_ex_iff)
  note ih = Cons.IH [of ?g]
  have 1: "g_nodes (fold (merge_rel rel ds) (r # rows) g) = g_nodes g"
    using ih n by simp
  have 2: "set (g_edges g) \<subseteq> set (g_edges (fold (merge_rel rel ds) (r # rows) g))"
    using ih s by auto
  have 3: "\<forall>x\<in>set (r # rows). \<exists>e\<in>set (g_edges (fold (merge_rel rel ds) (r # rows) g)).
             rel_is (fst x) (snd x) rel ds e"
    using ih h by auto
  have 4: "fold (merge_rel rel ds) (r # rows) g = g"
    if "\<forall>x\<in>set (r # rows). \<exists>e\<in>set (g_edges g). rel_is (fst x) (snd x) rel ds e"
  proof -
    from that have "?g = g" by (intro i) simp
    with that ih show ?thesis by simp
  qed
  show ?case
    using 1 2 3 4 by blast
qed

lemma run_merge_relationship_general:
  assumes t: "tame_write p" and run: "run_merge_relationship p g = (g', rows)"
  shows "sat p g'" and "sat q g \<Longrightarrow> sat q g'"
    and "sat p g \<Longrightarrow> length (g_nodes g') = length (g_nodes g) \<and> g_edges g' = g_edges g"
    and "rows \<noteq> []"
proof -
  let ?ds = "rw_dataset p"
  let ?s = "rw_start_name p"
  let ?e = "rw_end_name p"
  from t have ts: "tame ?s ?ds (rw_start_props p)" and te: "tame ?e ?ds (rw_end_props p)"
    by (simp_all add: tame_write_def)
  obtain g1 as where m1: "merge_entity ?s ?ds (rw_start_type p) (rw_start_props p) g = (g1, as)"
    by (cases "merge_entity ?s ?ds (rw_start_type p) (rw_start_props p) g")
  obtain g2 rs where m2: "merge_end_rows as ?e ?ds (rw_end_type p) (rw_end_props p) g1 = (g2, rs)"
    by (cases "merge_end_rows as ?e ?ds (rw_end_type p) (rw_end_props p) g1")
  from run m1 m2 have g': "g' = fold (merge_rel (rw_relation p) ?ds) rs g2" and rows: "rows = rs"
    by (auto simp: run_merge_relationship_def)
  note a = merge_entity_general [OF ts m1]
  note b = merge_end_rows_general [OF te m2]
  note c = fold_merge_rel_general [of "rw_relation p" ?ds rs g2]
  have as: "as = matches ?s ?ds g1" "as \<noteq> []"
    using a(1,2) by simp_all
  have e2: "matches ?e ?ds g2 \<noteq> []" and rs: "set rs = set as \<times> set (matches ?e ?ds g2)"
    using b as(2) by simp_all
  have "matches ?s ?ds g1 \<noteq> [] \<longrightarrow> matches ?s ?ds g2 = matches ?s ?ds g1"
    using b by blast
  then have s2: "matches ?s ?ds g2 = as"
    using as by simp
  have "g_nodes g' = g_nodes g2"
    using c by (simp add: g')
  then have n': "matches v d g' = matches v d g2" for v d
    by (rule matches_nodes_cong)
  have keep: "matches v d g' = matches v d g" if "matches v d g \<noteq> []" for v d
  proof -
    from that have 1: "matches v d g1 = matches v d g" by (rule a(4))
    with that b have "matches v d g2 = matches v d g1" by simp
    with 1 show ?thesis by (simp add: n')
  qed
  have edges: "set (g_edges g) \<subseteq> set (g_edges g')"
    using a(3) b c by (simp add: g')
  show "rows \<noteq> []"
  proof
    assume "rows = []"
    then have "set as \<times> set (matches ?e ?ds g2) = {}"
      using rs by (simp add: rows)
    then show False
      using as(2) e2 by (simp add: Sigma_empty_iff)
  qed
  show "sat p g'"
  proof -
    have "\<exists>e\<in>set (g_edges g'). rel_is x y (rw_relation p) ?ds e"
      if "x \<in> set as" "y \<in> set (matches ?e ?ds g2)" for x y
    proof -
      from that have "(x, y) \<in> set rs"
        by (simp add: rs)
      with c have "\<exists>e\<in>set (g_edges (fold (merge_rel (rw_relation p) ?ds) rs g2)).
          rel_is (fst (x, y)) (snd (x, y)) (rw_relation p) ?ds e"
        by blast
      then show ?thesis
        by (simp add: g')
    qed
    then show ?thesis
      unfolding sat_def n' s2 using as(2) e2 by simp
  qed
  show "sat q g'" if "sat q g"
  proof -
    from that have "matches (rw_start_name q) (rw_dataset q) g' = matches (rw_start_name q) (rw_dataset q) g"
      "matches (rw_end_name q) (rw_dataset q) g' = matches (rw_end_name q) (rw_dataset q) g"
      by (simp_all add: sat_def keep)
    with that edges show ?thesis
      unfolding sat_def by (simp only:) blast
  qed
  show "length (g_nodes g') = length (g_nodes g) \<and> g_edges g' = g_edges g" if "sat p g"
  proof -
    from that have ms: "matches ?s ?ds g \<noteq> []" and me: "matches ?e ?ds g \<noteq> []"
      and ex: "\<forall>a\<in>set (matches ?s ?ds g). \<forall>b\<in>set (matches ?e ?ds g).
                 \<exists>e\<in>set (g_edges g). rel_is a b (rw_relation p) ?ds e"
      by (simp_all add: sat_def)
    have l1: "length (g_nodes g1) = length (g_nodes g)"
      using ms by (rule a(5))
    have as': "as = matches ?s ?ds g"
      using a(4) [OF ms] as(1) by simp
    have me1: "matches ?e ?ds g1 = matches ?e ?ds g"
      using me by (rule a(4))
    with me b have l2: "length (g_nodes g2) = length (g_nodes g1)"
      and me2: "matches ?e ?ds g2 = matches ?e ?ds g1"
      by simp_all
    have e2: "g_edges g2 = g_edges g"
      using a(3) b by simp
    have "\<exists>e\<in>set (g_edges g2). rel_is (fst r) (snd r) (rw_relation p) ?ds e"
      if "r \<in> set rs" for r
    proof -
      from that have "fst r \<in> set (matches ?s ?ds g)" "snd r \<in> set (matches ?e ?ds g)"
        by (auto simp: rs as' me2 me1)
      with ex show ?thesis
        by (simp add: e2)
    qed
    then have "\<forall>r\<in>set rs. \<exists>e\<in>set (g_edges g2). rel_is (fst r) (snd r) (rw_relation p) ?ds e"
      by blast
    with c have "g' = g2"
      by (simp add: g')
    then show ?thesis
      by (simp add: l1 l2 e2)
  qed
qed

lemma py_get_name:
  "py_get ps ''name'' (JStr []) = Inr v \<Longrightarrow> truthy v \<Longrightarrow>
     map_of (dict_items ps) ''name'' = Some v \<and> v \<noteq> JNull"
  by (cases ps) (auto split: option.splits)

lemma foreign_tag_dict_items:
  "\<not> foreign_tag ds ps \<Longrightarrow>
     map_of (dict_items ps) ''dataset'' = None \<or> map_of (dict_items ps) ''dataset'' = Some (JStr ds)"
  by (cases ps) (auto split: option.splits)

lemma tame_endpoint:
  assumes "py_get ps ''name'' (JStr []) = Inr v" and "truthy v" and "\<not> foreign_tag ds ps"
  shows "tame v ds (dict_items ps)"
  using py_get_name [OF assms(1,2)] foreign_tag_dict_items [OF assms(3)]
  by (simp add: tame_def)

lemma bind_err_Inr:
  "bind_err m f = Inr y \<Longrightarrow> (\<And>x. m = Inr x \<Longrightarrow> f x = Inr y \<Longrightarrow> P) \<Longrightarrow> P"
  by (cases m) (simp_all add: bind_err_def)

lemma rel_record_tame:
  assumes "rel_record ds item = Inr (Some p)" and "\<not> retags ds item"
  shows "tame_write p \<and> rw_dataset p = ds"
proof -
  from assms(1) [unfolded rel_record_def]
  obtain sn en rel sp ep sname ename where
    g: "py_get item ''start_node'' (JDict []) = Inr sn"
       "py_get item ''end_node'' (JDict []) = Inr en"
       "py_get sn ''properties'' (JDict []) = Inr sp"
       "py_get en ''properties'' (JDict []) = Inr ep"
       "py_get sp ''name'' (JStr []) = Inr sname"
       "py_get ep ''name'' (JStr []) = Inr ename"
    and rest: "(if \<not> truthy sname \<or> \<not> truthy ename then Inr None
      else
      bind_err (py_get sn ''label'' (JStr ''Entity'')) (\<lambda>start_label.
      bind_err (py_get sp ''schema_type'' start_label) (\<lambda>start_type.
      bind_err (py_get en ''label'' (JStr ''Entity'')) (\<lambda>end_label.
      bind_err (py_get ep ''schema_type'' end_label) (\<lambda>end_type.
        Inr (Some \<lparr>rw_start_name = sname, rw_end_name = ename,
                   rw_dataset = ds, rw_start_type = start_type,
                   rw_end_type = end_type, rw_start_props = dict_items sp,
                   rw_end_props = dict_items ep, rw_relation = rel\<rparr>)))))) = Inr (Some p)"
    by (elim bind_err_Inr) blast
  from rest have tr: "truthy sname" "truthy ename"
    by (auto split: if_splits)
  with rest obtain st et where p: "p = \<lparr>rw_start_name = sname, rw_end_name = ename,
                   rw_dataset = ds, rw_start_type = st,
                   rw_end_type = et, rw_start_props = dict_items sp,
                   rw_end_props = dict_items ep, rw_relation = rel\<rparr>"
    by (auto elim!: bind_err_Inr)
  from assms(2) g have nf: "\<not> foreign_tag ds sp" "\<not> foreign_tag ds ep"
    by (simp_all add: retags_def node_props_def)
  show ?thesis
    using tame_endpoint [OF g(5) tr(1) nf(1)] tame_endpoint [OF g(6) tr(2) nf(2)]
    by (simp add: tame_write_def p)
qed

lemma session_run_ok:
  "\<not> fault env (length (trace w)) \<Longrightarrow>
     session_run env q w =
       (Inr (snd (exec q (db w))), w\<lparr>db := fst (exec q (db w)), trace := trace w @ [q]\<rparr>)"
  by (simp add: session_run_def split: prod.splits)

lemma rel_loop_step:
  assumes "\<And>i. \<not> fault env i" and "is_dict x" and "rel_record ds x = Inr (Some p)"
  shows "\<exists>c' w1. rel_loop env ds (x # xs) c w = rel_loop env ds xs c' w1 \<and>
           db w1 = fst (run_merge_relationship p (db w))"
proof -
  obtain g rows where r: "run_merge_relationship p (db w) = (g, rows)"
    by (cases "run_merge_relationship p (db w)")
  let ?w1 = "w\<lparr>db := g, trace := trace w @ [MergeRelationship p]\<rparr>"
  have "rel_loop env ds (x # xs) c w =
        rel_loop env ds xs (if rows \<noteq> [] then (fst c + 2, snd c + 1) else c) ?w1"
    using assms(2,3) by (simp add: session_run_ok [OF assms(1)] r)
  moreover have "db ?w1 = fst (run_merge_relationship p (db w))"
    by (simp add: r)
  ultimately show ?thesis
    by blast
qed

lemma rel_loop_first:
  assumes nf: "\<And>i. \<not> fault env i"
  shows "list_all (\<lambda>x. \<not> retags ds x) xs \<Longrightarrow> rel_loop env ds xs c w = (r, w') \<Longrightarrow>
         \<forall>q\<in>Q. sat q (db w) \<Longrightarrow>
         (\<forall>q\<in>Q. sat q (db w')) \<and>
         (\<forall>p. MergeRelationship p \<in> set (fst (rel_attempts ds xs)) \<longrightarrow> sat p (db w'))"
proof (induction xs arbitrary: c w Q)
  case Nil
  then show ?case by auto
next
  case (Cons x xs)
  from Cons.prems(1) have tl: "list_all (\<lambda>x. \<not> retags ds x) xs" and hd: "\<not> retags ds x"
    by simp_all
  show ?case
  proof (cases "is_dict x")
    case False
    with Cons.prems(2) have "rel_loop env ds xs c w = (r, w')" by simp
    from Cons.IH [OF tl this Cons.prems(3)] False show ?thesis by simp
  next
    case True
    show ?thesis
    proof (cases "rel_record ds x")
      case (Inl e)
      with True Cons.prems show ?thesis by auto
    next
      case (Inr po)
      show ?thesis
      proof (cases po)
        case None
        with Inr True Cons.prems(2) have "rel_loop env ds xs c w = (r, w')" by simp
        from Cons.IH [OF tl this Cons.prems(3)] Inr None True show ?thesis by simp
      next
        case (Some p)
        from rel_loop_step [OF nf True Inr [unfolded Some], of xs c w]
        obtain c' w1 where l: "rel_loop env ds (x # xs) c w = rel_loop env ds xs c' w1"
          and d: "db w1 = fst (run_merge_relationship p (db w))"
          by blast
        obtain g rows where run: "run_merge_relationship p (db w) = (g, rows)"
          by (cases "run_merge_relationship p (db w)")
        from rel_record_tame [OF Inr [unfolded Some] hd] have t: "tame_write p"
          by simp
        note s = run_merge_relationship_general [OF t run]
        have q: "\<forall>q\<in>insert p Q. sat q (db w1)"
          using s(1) s(2) Cons.prems(3) by (auto simp: d run)
        from l Cons.prems(2) have "rel_loop env ds xs c' w1 = (r, w')" by simp
        from Cons.IH [OF tl this q] show ?thesis
          using True Inr Some by auto
      qed
    qed
  qed
qed

lemma rel_loop_second:
  assumes nf: "\<And>i. \<not> fault env i"
  shows "list_all (\<lambda>x. \<not> retags ds x) xs \<Longrightarrow> rel_loop env ds xs c w = (r, w') \<Longrightarrow>
         \<forall>p. MergeRelationship p \<in> set (fst (rel_attempts ds xs)) \<longrightarrow> sat p (db w) \<Longrightarrow>
         length (g_nodes (db w')) = length (g_nodes (db w)) \<and> g_edges (db w') = g_edges (db w)"
proof (induction xs arbitrary: c w)
  case Nil
  then show ?case by auto
next
  case (Cons x xs)
  from Cons.prems(1) have tl: "list_all (\<lambda>x. \<not> retags ds x) xs" and hd: "\<not> retags ds x"
    by simp_all
  show ?case
  proof (cases "is_dict x")
    case False
    with Cons.prems have "rel_loop env ds xs c w = (r, w')"
      and "\<forall>p. MergeRelationship p \<in> set (fst (rel_attempts ds xs)) \<longrightarrow> sat p (db w)"
      by simp_all
    then show ?thesis by (rule Cons.IH [OF tl])
  next
    case True
    show ?thesis
    proof (cases "rel_record ds x")
      case (Inl e)
      with True Cons.prems show ?thesis by auto
    next
      case (Inr po)
      show ?thesis
      proof (cases po)
        case None
        with Inr True Cons.prems have "rel_loop env ds xs c w = (r, w')"
          and "\<forall>p. MergeRelationship p \<in> set (fst (rel_attempts ds xs)) \<longrightarrow> sat p (db w)"
          by simp_all
        then show ?thesis by (rule Cons.IH [OF tl])
      next
        case (Some p)
        from rel_loop_step [OF nf True Inr [unfolded Some], of xs c w]
        obtain c' w1 where l: "rel_loop env ds (x # xs) c w = rel_loop env ds xs c' w1"
          and d: "db w1 = fst (run_merge_relationship p (db w))"
          by blast
        obtain g rows where run: "run_merge_relationship p (db w) = (g, rows)"
          by (cases "run_merge_relationship p (db w)")
        from rel_record_tame [OF Inr [unfolded Some] hd] have t: "tame_write p"
          by simp
        note s = run_merge_relationship_general [OF t run]
        from Cons.prems(3) True Inr Some have sp: "sat p (db w)"
          and rest: "\<forall>p. MergeRelationship p \<in> set (fst (rel_attempts ds xs)) \<longrightarrow> sat p (db w)"
          by simp_all
        from s(3) [OF sp] have same: "length (g_nodes (db w1)) = length (g_nodes (db w))"
          "g_edges (db w1) = g_edges (db w)"
          by (simp_all add: d run)
        have rest1: "\<forall>p. MergeRelationship p \<in> set (fst (rel_attempts ds xs)) \<longrightarrow> sat p (db w1)"
          using rest s(2) by (simp add: d run)
        from l Cons.prems(2) have "rel_loop env ds xs c' w1 = (r, w')" by simp
        from Cons.IH [OF tl this rest1] same show ?thesis by simp
      qed
    qed
  qed
qed

lemma rel_list_db:
  assumes "driver self"
  shows "\<exists>r v. rel_loop env ds items (0, 0) (w\<lparr>sessions_open := Suc (sessions_open w)\<rparr>) = (r, v) \<and>
           db (snd (load_relationship_list_format env self items ds w)) = db v"
proof -
  obtain r v where l: "rel_loop env ds items (0, 0) (w\<lparr>sessions_open := Suc (sessions_open w)\<rparr>) = (r, v)"
    by (cases "rel_loop env ds items (0, 0) (w\<lparr>sessions_open := Suc (sessions_open w)\<rparr>)")
  have "db (snd (load_relationship_list_format env self items ds w)) = db v"
    using assms
    by (cases r) (simp_all add: load_relationship_list_format_def with_session_def
        relationship_list_body_def l)
  with l show ?thesis by blast
qed

text \<open>
  C3, amended. When no element of the relationship list retags an endpoint and no write
  fails, a second load of the same file into the same dataset without clearing leaves
  the number of stored nodes and the number of stored edges as the first load left
  them, from any state of the database: every node merge finds the node by
  (name, dataset) and every relationship merge finds the relationship by
  (type, dataset) between the same nodes.
\<close>

theorem reload_keeps_counts:
  assumes nf: "\<forall>i. \<not> fault env i" and dr: "driver self"
    and content: "files env path = Content (JList items)"
    and tame: "list_all (\<lambda>x. \<not> retags ds x) items"
  shows "length (g_nodes (db (snd (load_graph_from_json env self path ds False
            (snd (load_graph_from_json env self path ds False w)))))) =
         length (g_nodes (db (snd (load_graph_from_json env self path ds False w)))) \<and>
         length (g_edges (db (snd (load_graph_from_json env self path ds False
            (snd (load_graph_from_json env self path ds False w)))))) =
         length (g_edges (db (snd (load_graph_from_json env self path ds False w))))"
proof -
  have load: "load_graph_from_json env self path ds False v =
              load_relationship_list_format env self items ds v" for v
    using dr content by (simp add: load_graph_from_json_def)
  let ?once = "snd (load_relationship_list_format env self items ds w)"
  from rel_list_db [OF dr, of env ds items w] obtain r1 v1 where
    l1: "rel_loop env ds items (0, 0) (w\<lparr>sessions_open := Suc (sessions_open w)\<rparr>) = (r1, v1)"
    and d1: "db ?once = db v1"
    by blast
  from rel_list_db [OF dr, of env ds items ?once] obtain r2 v2 where
    l2: "rel_loop env ds items (0, 0) (?once\<lparr>sessions_open := Suc (sessions_open ?once)\<rparr>) = (r2, v2)"
    and d2: "db (snd (load_relationship_list_format env self items ds ?once)) = db v2"
    by blast
  have f: "\<not> fault env i" for i
    using nf by simp
  have "\<forall>q\<in>{}. sat q (db (w\<lparr>sessions_open := Suc (sessions_open w)\<rparr>))"
    by simp
  from rel_loop_first [OF f tame l1 this]
  have s: "\<forall>p. MergeRelationship p \<in> set (fst (rel_attempts ds items)) \<longrightarrow> sat p (db v1)"
    by simp
  then have "\<forall>p. MergeRelationship p \<in> set (fst (rel_attempts ds items)) \<longrightarrow>
      sat p (db (?once\<lparr>sessions_open := Suc (sessions_open ?once)\<rparr>))"
    by (simp add: d1)
  from rel_loop_second [OF f tame l2 this]
  have "length (g_nodes (db v2)) = length (g_nodes (db ?once)) \<and> g_edges (db v2) = g_edges (db ?once)"
    by simp
  then show ?thesis
    by (simp add: load d2)
qed

theorem reload_keeps_counts_witness:
  "length (g_nodes (db (snd (load_graph_from_json
      (reliable (\<lambda>p. Content (JList [relationship ''A'' ''located_in'' ''B''])))
      connected ''g.json'' ''demo'' False
      (snd (load_graph_from_json
         (reliable (\<lambda>p. Content (JList [relationship ''A'' ''located_in'' ''B''])))
         connected ''g.json'' ''demo'' False fresh_world)))))) = 2 \<and>
   length (g_edges (db (snd (load_graph_from_json
      (reliable (\<lambda>p. Content (JList [relationship ''A'' ''located_in'' ''B''])))
      connected ''g.json'' ''demo'' False
      (snd (load_graph_from_json
         (reliable (\<lambda>p. Content (JList [relationship ''A'' ''located_in'' ''B''])))
         connected ''g.json'' ''demo'' False fresh_world)))))) = 1"
proof -
  have h: "\<forall>i. \<not> fault (reliable (\<lambda>p. Content (JList [relationship ''A'' ''located_in'' ''B'']))) i"
    "driver connected"
    "files (reliable (\<lambda>p. Content (JList [relationship ''A'' ''located_in'' ''B'']))) ''g.json'' =
       Content (JList [relationship ''A'' ''located_in'' ''B''])"
    by (simp_all add: reliable_def connected_def)
  have t: "list_all (\<lambda>x. \<not> retags ''demo'' x) [relationship ''A'' ''located_in'' ''B'']"
    by (simp add: retags_def node_props_def relationship_def endpoint_def)
  have once: "length (g_nodes (db (snd (load_graph_from_json
         (reliable (\<lambda>p. Content (JList [relationship ''A'' ''located_in'' ''B''])))
         connected ''g.json'' ''demo'' False fresh_world)))) = 2"
    "length (g_edges (db (snd (load_graph_from_json
         (reliable (\<lambda>p. Content (JList [relationship ''A'' ''located_in'' ''B''])))
         connected ''g.json'' ''demo'' False fresh_world)))) = 1"
    by code_simp+
  show ?thesis
    using reload_keeps_counts [OF h t, of fresh_world] once by simp
qed

text \<open>
  The state of the counterexample to C4 can come from the loader itself: after the load
  of the retagging list into \<open>demo\<close> the only relationship is tagged \<open>demo\<close> and
  starts at a node tagged \<open>other\<close>, and a clear of \<open>other\<close> deletes it.
\<close>

lemma loader_crosses_datasets:
  "map (\<lambda>e. map_of (eprops e) ''dataset'')
     (g_edges (db (snd (load_graph_from_json (reliable (\<lambda>p. Content retagging))
        connected ''g.json'' ''demo'' False fresh_world)))) = [Some (JStr ''demo'')] \<and>
   g_edges (db (snd (clear_graph (reliable (\<lambda>p. Absent)) connected ''other''
     (snd (load_graph_from_json (reliable (\<lambda>p. Content retagging))
        connected ''g.json'' ''demo'' False fresh_world))))) = []"
  by code_simp

end
